theory Spec2Isabelle
  imports Main "HOL-Library.Word"
begin

section \<open>The undo system of the animation editor (editor/UndoSystem.cpp)\<close>

text \<open>
  The development follows \<^verbatim>\<open>Animations/src/editor/UndoSystem.cpp\<close>: a ring buffer of
  heap-allocated commands with a head cursor, a tail cursor and a command count, and two
  command classes whose \<^verbatim>\<open>execute\<close> and \<^verbatim>\<open>undo\<close> methods mutate animation objects
  owned by the animation manager.
\<close>

subsection \<open>Machine integers\<close>

text \<open>
  The cursors and the count are \<^verbatim>\<open>uint32\<close>. They are kept as natural numbers and every
  arithmetic operation of the source wraps modulo \<open>2 ^ 32\<close> explicitly.
\<close>

definition u32_add :: "nat \<Rightarrow> nat \<Rightarrow> nat" where
  "u32_add a b = (a + b) mod 2 ^ 32"

definition u32_sub :: "nat \<Rightarrow> nat \<Rightarrow> nat" where
  "u32_sub a b = (a + 2 ^ 32 - b mod 2 ^ 32) mod 2 ^ 32"

subsection \<open>Animation objects and the animation manager\<close>

type_synonym u8vec4 = "8 word \<times> 8 word \<times> 8 word \<times> 8 word"

type_synonym AnimObjId = nat

datatype U8Vec4PropType = FillColor | StrokeColor

text \<open>
  Of \<^verbatim>\<open>AnimObject\<close> the undo system touches the two colour members
  \<^verbatim>\<open>_fillColorStart\<close> and \<^verbatim>\<open>_strokeColorStart\<close> only.
\<close>

record AnimObject =
  fillColorStart :: u8vec4
  strokeColorStart :: u8vec4

text \<open>
  Modelled from the spec: \<^verbatim>\<open>AnimationManagerData\<close> and the three operations the undo
  system calls on it (\<^verbatim>\<open>AnimationManager::getMutableObject\<close>,
  \<^verbatim>\<open>AnimationManager::updateObjectState\<close>, \<^verbatim>\<open>AnimObject::beginBreadthFirst\<close>) are
  declared in headers outside this unit. The store resolves an identifier to its current
  object or to nothing, records a change notification for an identifier, and yields the
  finite breadth-first sequence of the descendants of an object as the graph is at the
  time of the call. The traversal itself is a parameter of the store here.
\<close>

record AnimationManagerData =
  objects :: "AnimObjId \<rightharpoonup> AnimObject"
  breadthFirst :: "AnimObjId \<Rightarrow> AnimObjId list"
  stateUpdates :: "AnimObjId list"

definition getMutableObject :: "AnimationManagerData \<Rightarrow> AnimObjId \<Rightarrow> AnimObject option" where
  "getMutableObject a objId = objects a objId"

definition updateObjectState :: "AnimationManagerData \<Rightarrow> AnimObjId \<Rightarrow> AnimationManagerData" where
  "updateObjectState a objId = a\<lparr>stateUpdates := stateUpdates a @ [objId]\<rparr>"

text \<open>
  An assignment through the pointer that \<^verbatim>\<open>getMutableObject\<close> returned replaces the
  object stored under that identifier.
\<close>

definition writeObject :: "AnimationManagerData \<Rightarrow> AnimObjId \<Rightarrow> AnimObject \<Rightarrow> AnimationManagerData" where
  "writeObject a objId obj = a\<lparr>objects := (objects a)(objId \<mapsto> obj)\<rparr>"

subsection \<open>Commands\<close>

text \<open>
  The two subclasses of \<^verbatim>\<open>Command\<close> with their members: \<^verbatim>\<open>ModifyU8Vec4Command\<close>
  holds \<^verbatim>\<open>objId\<close>, \<^verbatim>\<open>oldVec\<close>, \<^verbatim>\<open>newVec\<close>, \<^verbatim>\<open>propType\<close>;
  \<^verbatim>\<open>ApplyU8Vec4ToChildrenCommand\<close> holds \<^verbatim>\<open>objId\<close>, \<^verbatim>\<open>propType\<close> and the
  unordered map \<^verbatim>\<open>oldProps\<close>.
\<close>

datatype Command =
  ModifyU8Vec4Command AnimObjId u8vec4 u8vec4 U8Vec4PropType
| ApplyU8Vec4ToChildrenCommand AnimObjId U8Vec4PropType "AnimObjId \<rightharpoonup> u8vec4"

definition ModifyU8Vec4Command_execute ::
  "AnimObjId \<Rightarrow> u8vec4 \<Rightarrow> u8vec4 \<Rightarrow> U8Vec4PropType \<Rightarrow> AnimationManagerData \<Rightarrow> AnimationManagerData" where
  "ModifyU8Vec4Command_execute objId oldVec newVec propType a =
     (case getMutableObject a objId of
        None \<Rightarrow> a
      | Some obj \<Rightarrow>
          updateObjectState
            (case propType of
               FillColor \<Rightarrow> writeObject a objId (obj\<lparr>fillColorStart := newVec\<rparr>)
             | StrokeColor \<Rightarrow> writeObject a objId (obj\<lparr>strokeColorStart := newVec\<rparr>))
            objId)"

definition ModifyU8Vec4Command_undo ::
  "AnimObjId \<Rightarrow> u8vec4 \<Rightarrow> u8vec4 \<Rightarrow> U8Vec4PropType \<Rightarrow> AnimationManagerData \<Rightarrow> AnimationManagerData" where
  "ModifyU8Vec4Command_undo objId oldVec newVec propType a =
     (case getMutableObject a objId of
        None \<Rightarrow> a
      | Some obj \<Rightarrow>
          updateObjectState
            (case propType of
               FillColor \<Rightarrow> writeObject a objId (obj\<lparr>fillColorStart := oldVec\<rparr>)
             | StrokeColor \<Rightarrow> writeObject a objId (obj\<lparr>strokeColorStart := oldVec\<rparr>))
            objId)"

text \<open>
  The loop of \<^verbatim>\<open>ApplyU8Vec4ToChildrenCommand::execute\<close> over the breadth-first
  iterator. \<^verbatim>\<open>obj\<close> is a pointer to the live target, so each iteration reads the
  target's member as it is then: the target is looked up again in the current store (it
  is never removed inside the loop, the \<open>None\<close> branch is there for totality only). In
  the \<^verbatim>\<open>StrokeColor\<close> case the source saves the child's \<^verbatim>\<open>_strokeColorStart\<close> and
  assigns the child's \<^verbatim>\<open>_fillColorStart\<close>.
\<close>

fun applyToChildren_loop ::
  "U8Vec4PropType \<Rightarrow> AnimObjId \<Rightarrow> AnimObjId list \<Rightarrow> (AnimObjId \<rightharpoonup> u8vec4) \<Rightarrow> AnimationManagerData
     \<Rightarrow> (AnimObjId \<rightharpoonup> u8vec4) \<times> AnimationManagerData" where
  "applyToChildren_loop propType objId [] oldProps a = (oldProps, a)"
| "applyToChildren_loop propType objId (childId # rest) oldProps a =
     (case getMutableObject a childId of
        None \<Rightarrow> applyToChildren_loop propType objId rest oldProps a
      | Some childObj \<Rightarrow>
          (case getMutableObject a objId of
             None \<Rightarrow> applyToChildren_loop propType objId rest oldProps a
           | Some obj \<Rightarrow>
               (case propType of
                  FillColor \<Rightarrow>
                    applyToChildren_loop propType objId rest
                      (oldProps(childId \<mapsto> fillColorStart childObj))
                      (writeObject a childId (childObj\<lparr>fillColorStart := fillColorStart obj\<rparr>))
                | StrokeColor \<Rightarrow>
                    applyToChildren_loop propType objId rest
                      (oldProps(childId \<mapsto> strokeColorStart childObj))
                      (writeObject a childId (childObj\<lparr>fillColorStart := strokeColorStart obj\<rparr>)))))"

definition ApplyU8Vec4ToChildrenCommand_execute ::
  "AnimObjId \<Rightarrow> U8Vec4PropType \<Rightarrow> (AnimObjId \<rightharpoonup> u8vec4) \<Rightarrow> AnimationManagerData
     \<Rightarrow> (AnimObjId \<rightharpoonup> u8vec4) \<times> AnimationManagerData" where
  "ApplyU8Vec4ToChildrenCommand_execute objId propType oldProps a =
     (case getMutableObject a objId of
        None \<Rightarrow> (oldProps, a)
      | Some obj \<Rightarrow>
          (case applyToChildren_loop propType objId (breadthFirst a objId) oldProps a of
             (oldProps', a') \<Rightarrow> (oldProps', updateObjectState a' objId)))"

fun undoChildren_loop ::
  "U8Vec4PropType \<Rightarrow> (AnimObjId \<rightharpoonup> u8vec4) \<Rightarrow> AnimObjId list \<Rightarrow> AnimationManagerData
     \<Rightarrow> AnimationManagerData" where
  "undoChildren_loop propType oldProps [] a = a"
| "undoChildren_loop propType oldProps (childId # rest) a =
     (case getMutableObject a childId of
        None \<Rightarrow> undoChildren_loop propType oldProps rest a
      | Some childObj \<Rightarrow>
          (case oldProps childId of
             None \<Rightarrow> undoChildren_loop propType oldProps rest a
           | Some childColor \<Rightarrow>
               (case propType of
                  FillColor \<Rightarrow>
                    undoChildren_loop propType oldProps rest
                      (writeObject a childId (childObj\<lparr>fillColorStart := childColor\<rparr>))
                | StrokeColor \<Rightarrow>
                    undoChildren_loop propType oldProps rest
                      (writeObject a childId (childObj\<lparr>strokeColorStart := childColor\<rparr>)))))"

definition ApplyU8Vec4ToChildrenCommand_undo ::
  "AnimObjId \<Rightarrow> U8Vec4PropType \<Rightarrow> (AnimObjId \<rightharpoonup> u8vec4) \<Rightarrow> AnimationManagerData
     \<Rightarrow> AnimationManagerData" where
  "ApplyU8Vec4ToChildrenCommand_undo objId propType oldProps a =
     (case getMutableObject a objId of
        None \<Rightarrow> a
      | Some obj \<Rightarrow>
          updateObjectState (undoChildren_loop propType oldProps (breadthFirst a objId) a) objId)"

text \<open>
  Virtual dispatch. \<^verbatim>\<open>execute\<close> may change the command itself (the snapshot map), so it
  returns the command with the store; \<^verbatim>\<open>undo\<close> assigns no member of either class.
\<close>

fun Command_execute :: "Command \<Rightarrow> AnimationManagerData \<Rightarrow> Command \<times> AnimationManagerData" where
  "Command_execute (ModifyU8Vec4Command objId oldVec newVec propType) a =
     (ModifyU8Vec4Command objId oldVec newVec propType,
      ModifyU8Vec4Command_execute objId oldVec newVec propType a)"
| "Command_execute (ApplyU8Vec4ToChildrenCommand objId propType oldProps) a =
     (case ApplyU8Vec4ToChildrenCommand_execute objId propType oldProps a of
        (oldProps', a') \<Rightarrow> (ApplyU8Vec4ToChildrenCommand objId propType oldProps', a'))"

fun Command_undo :: "Command \<Rightarrow> AnimationManagerData \<Rightarrow> AnimationManagerData" where
  "Command_undo (ModifyU8Vec4Command objId oldVec newVec propType) a =
     ModifyU8Vec4Command_undo objId oldVec newVec propType a"
| "Command_undo (ApplyU8Vec4ToChildrenCommand objId propType oldProps) a =
     ApplyU8Vec4ToChildrenCommand_undo objId propType oldProps a"

subsection \<open>The undo system\<close>

text \<open>
  \<^verbatim>\<open>history\<close> is the array of \<^verbatim>\<open>maxHistory\<close> command pointers. A slot is \<open>Some c\<close>
  when it points to a live command and \<open>None\<close> when it does not (never written since the
  allocation, or its command destroyed and freed).
\<close>

record UndoSystemData =
  am :: AnimationManagerData
  history :: "Command option list"
  numCommands :: nat
  undoCursorTail :: nat
  undoCursorHead :: nat
  maxHistorySize :: nat

text \<open>
  What the source leaves undefined is an error value of the model: a failed
  \<^verbatim>\<open>g_logger_assert\<close>, a remainder by zero, a call through a pointer to no live
  command, and an array access outside the allocation.
\<close>

datatype error = AssertionFailed | DivisionByZero | InvalidCommandPointer | OutOfBounds

definition bindE :: "error + 'a \<Rightarrow> ('a \<Rightarrow> error + 'b) \<Rightarrow> error + 'b" where
  "bindE r f = (case r of Inl e \<Rightarrow> Inl e | Inr x \<Rightarrow> f x)"

definition u32_mod :: "nat \<Rightarrow> nat \<Rightarrow> error + nat" where
  "u32_mod a b = (if b = 0 then Inl DivisionByZero else Inr (a mod b))"

definition liveCommand :: "UndoSystemData \<Rightarrow> nat \<Rightarrow> error + Command" where
  "liveCommand us i =
     (if i < length (history us)
      then (case history us ! i of None \<Rightarrow> Inl InvalidCommandPointer | Some c \<Rightarrow> Inr c)
      else Inl OutOfBounds)"

definition setSlot :: "UndoSystemData \<Rightarrow> nat \<Rightarrow> Command option \<Rightarrow> error + UndoSystemData" where
  "setSlot us i p =
     (if i < length (history us) then Inr (us\<lparr>history := (history us)[i := p]\<rparr>)
      else Inl OutOfBounds)"

text \<open>
  \<^verbatim>\<open>us->history[i]->~Command(); g_memory_free(us->history[i]);\<close> needs a live command
  in the slot and leaves none there.
\<close>

definition destroySlot :: "UndoSystemData \<Rightarrow> nat \<Rightarrow> error + UndoSystemData" where
  "destroySlot us i = bindE (liveCommand us i) (\<lambda>c. setSlot us i None)"

text \<open>
  \<^verbatim>\<open>us->history[i]->execute(us->am)\<close>: the command in the slot and the store are both
  updated in place.
\<close>

definition executeSlot :: "UndoSystemData \<Rightarrow> nat \<Rightarrow> error + UndoSystemData" where
  "executeSlot us i =
     bindE (liveCommand us i) (\<lambda>c.
       case Command_execute c (am us) of
         (c', a') \<Rightarrow> setSlot (us\<lparr>am := a'\<rparr>) i (Some c'))"

text \<open>
  \<^verbatim>\<open>init\<close>: \<^verbatim>\<open>maxHistory\<close> is an \<^verbatim>\<open>int\<close>; stored into the \<^verbatim>\<open>uint32\<close> member it keeps
  its bits. The allocation is not initialised: no slot holds a live command.
\<close>

definition init :: "AnimationManagerData \<Rightarrow> 32 word \<Rightarrow> error + UndoSystemData" where
  "init a maxHistory =
     (if sint maxHistory > 1
      then Inr \<lparr>am = a,
                history = replicate (unat maxHistory) None,
                numCommands = 0,
                undoCursorTail = 0,
                undoCursorHead = 0,
                maxHistorySize = unat maxHistory\<rparr>
      else Inl AssertionFailed)"

definition undo :: "UndoSystemData \<Rightarrow> error + UndoSystemData" where
  "undo us =
     (if undoCursorHead us = undoCursorTail us then Inr us
      else
        (let offsetToUndo =
               (if undoCursorTail us = 0 then u32_sub (maxHistorySize us) 1
                else u32_sub (undoCursorTail us) 1)
         in bindE (liveCommand us offsetToUndo) (\<lambda>c.
              Inr (us\<lparr>am := Command_undo c (am us), undoCursorTail := offsetToUndo\<rparr>))))"

definition redo :: "UndoSystemData \<Rightarrow> error + UndoSystemData" where
  "redo us =
     bindE (u32_mod (u32_add (undoCursorHead us) (numCommands us)) (maxHistorySize us)) (\<lambda>e.
       if e = undoCursorTail us then Inr us
       else
         (let offsetToRedo = undoCursorTail us
          in bindE (executeSlot us offsetToRedo) (\<lambda>us1.
               bindE (u32_mod (u32_add (undoCursorTail us1) 1) (maxHistorySize us1)) (\<lambda>t.
                 Inr (us1\<lparr>undoCursorTail := t\<rparr>)))))"

definition addNewObjToScene :: "UndoSystemData \<Rightarrow> AnimObject \<Rightarrow> UndoSystemData" where
  "addNewObjToScene us obj = us"

definition removeObjFromScene :: "UndoSystemData \<Rightarrow> AnimObjId \<Rightarrow> UndoSystemData" where
  "removeObjFromScene us objId = us"

subsection \<open>Recording a command\<close>

text \<open>
  The first loop of \<^verbatim>\<open>pushAndExecuteCommand\<close> destroys the commands from the tail
  cursor up to \<^verbatim>\<open>(undoCursorHead + numCommands) % maxHistorySize\<close> and counts them.
  \<^verbatim>\<open>numCommands\<close> is not changed inside the loop, so the bound is the same in every
  round. The \<^verbatim>\<open>break\<close> in the body tests the negation of the loop condition that has
  just held and is never taken.
\<close>

lemma destroySlot_fields:
  "destroySlot us i = Inr us1 \<Longrightarrow>
     maxHistorySize us1 = maxHistorySize us \<and> undoCursorHead us1 = undoCursorHead us
     \<and> numCommands us1 = numCommands us \<and> undoCursorTail us1 = undoCursorTail us \<and> am us1 = am us
     \<and> history us1 = (history us)[i := None] \<and> i < length (history us)"
  by (auto simp: destroySlot_def bindE_def liveCommand_def setSlot_def split: if_splits option.splits)

definition ringDistance :: "nat \<Rightarrow> nat \<Rightarrow> nat \<Rightarrow> nat" where
  "ringDistance m i t = (if i < m then (t + m - i) mod m else m + 1)"

lemma ringDistance_step:
  assumes c: "0 < c" and t: "t = x mod 2 ^ 32 mod c" and it: "i \<noteq> t" and m: "m = min c (2 ^ 32)"
  shows "ringDistance m ((i + 1) mod 2 ^ 32 mod c) t < ringDistance m i t"
proof -
  let ?j = "(i + 1) mod 2 ^ 32 mod c"
  have m0: "0 < m" using c m by simp
  have tm: "t < m" using c t m by (simp add: min_def)
  have jm: "?j < m"
  proof -
    have "?j < c" using c by simp
    moreover have "?j \<le> (i + 1) mod 2 ^ 32" by (rule mod_less_eq_dividend)
    moreover have "(i + 1) mod 2 ^ 32 < (2::nat) ^ 32" by simp
    ultimately show ?thesis using m by linarith
  qed
  show ?thesis
  proof (cases "i < m")
    case False
    then have "ringDistance m i t = m + 1" by (simp add: ringDistance_def)
    moreover have "ringDistance m ?j t < m" using jm m0 by (simp add: ringDistance_def)
    ultimately show ?thesis by simp
  next
    case True
    have step: "?j = (i + 1) mod m"
    proof (cases "c \<le> 2 ^ 32")
      case le: True
      then have mc: "m = c" using m by simp
      show ?thesis
      proof (cases "i + 1 < 2 ^ 32")
        case True
        then show ?thesis using mc by simp
      next
        case False
        then have "i + 1 = 2 ^ 32" "c = 2 ^ 32" using \<open>i < m\<close> mc le by simp_all
        then show ?thesis using mc by simp
      qed
    next
      case False
      then have m32: "m = 2 ^ 32" using m by simp
      have "(i + 1) mod 2 ^ 32 < (2::nat) ^ 32" by simp
      then have "(i + 1) mod 2 ^ 32 < c" using False by linarith
      then show ?thesis using m32 by simp
    qed
    have di: "ringDistance m i t = (t + m - i) mod m" using True by (simp add: ringDistance_def)
    have dj: "ringDistance m ?j t = (t + m - (i + 1) mod m) mod m"
      using jm step by (simp add: ringDistance_def)
    consider "i < t" | "t < i" "i + 1 < m" | "t < i" "i + 1 = m"
      using it True by linarith
    then show ?thesis
    proof cases
      case 1
      then have a: "(t + m - i) mod m = t - i" using tm
        by (metis Nat.add_diff_assoc2 add.commute less_imp_le_nat less_imp_diff_less mod_add_self1 mod_less)
      have "(i + 1) mod m = i + 1" using 1 tm by simp
      moreover have "(t + m - (i + 1)) mod m = t - (i + 1)" using 1 tm
        by (metis Nat.add_diff_assoc2 Suc_eq_plus1 Suc_leI add.commute less_imp_diff_less mod_add_self1 mod_less)
      ultimately show ?thesis using di dj a 1 by simp
    next
      case 2
      then have "(t + m - i) mod m = t + m - i" using tm by simp
      moreover have "(i + 1) mod m = i + 1" using 2 by simp
      moreover have "(t + m - (i + 1)) mod m = t + m - (i + 1)" using 2 tm by simp
      ultimately show ?thesis using di dj 2 by simp
    next
      case 3
      then have "(t + m - i) mod m = t + 1" using tm by simp
      moreover have "(i + 1) mod m = 0" using 3 by simp
      ultimately show ?thesis using di dj tm by simp
    qed
  qed
qed

function removeCommandsAfterTail ::
  "UndoSystemData \<Rightarrow> nat \<Rightarrow> nat \<Rightarrow> error + UndoSystemData \<times> nat" where
  "removeCommandsAfterTail us i numCommandsRemoved =
     (if maxHistorySize us = 0 then Inl DivisionByZero
      else if i \<noteq> u32_add (undoCursorHead us) (numCommands us) mod maxHistorySize us
      then (case destroySlot us i of
              Inl e \<Rightarrow> Inl e
            | Inr us1 \<Rightarrow>
                removeCommandsAfterTail us1 (u32_add i 1 mod maxHistorySize us1)
                  (u32_add numCommandsRemoved 1))
      else Inr (us, numCommandsRemoved))"
  by pat_completeness auto
termination
proof (relation "measure (\<lambda>(us, i, n). ringDistance (min (maxHistorySize us) (2 ^ 32)) i
         (u32_add (undoCursorHead us) (numCommands us) mod maxHistorySize us))", goal_cases)
  case 1
  show ?case by simp
next
  case (2 us i n us1)
  from 2(3) have f: "maxHistorySize us1 = maxHistorySize us" "undoCursorHead us1 = undoCursorHead us"
    "numCommands us1 = numCommands us" by (simp_all add: destroySlot_fields)
  show ?case
    using ringDistance_step [of "maxHistorySize us" _ "undoCursorHead us + numCommands us" i] 2(1,2) f
    by (simp add: u32_add_def)
qed

declare removeCommandsAfterTail.simps [simp del]

text \<open>Lines 176 to 191: the loop, then \<^verbatim>\<open>us->numCommands -= numCommandsRemoved\<close>.\<close>

definition truncateRedoBranch :: "UndoSystemData \<Rightarrow> error + UndoSystemData" where
  "truncateRedoBranch us =
     bindE (removeCommandsAfterTail us (undoCursorTail us) 0) (\<lambda>(us1, numCommandsRemoved).
       Inr (us1\<lparr>numCommands := u32_sub (numCommands us1) numCommandsRemoved\<rparr>))"

text \<open>Lines 193 to 200: the oldest command is dropped when the tail would run into the head.\<close>

definition evictOldest :: "UndoSystemData \<Rightarrow> error + UndoSystemData" where
  "evictOldest us =
     bindE (u32_mod (u32_add (undoCursorTail us) 1) (maxHistorySize us)) (\<lambda>t.
       if t = undoCursorHead us
       then bindE (destroySlot us (undoCursorHead us)) (\<lambda>us1.
              bindE (u32_mod (u32_add (undoCursorHead us1) 1) (maxHistorySize us1)) (\<lambda>h.
                Inr (us1\<lparr>undoCursorHead := h, numCommands := u32_sub (numCommands us1) 1\<rparr>)))
       else Inr us)"

text \<open>Lines 202 to 207: the command is stored at the tail, counted, and executed.\<close>

definition placeAndExecute :: "UndoSystemData \<Rightarrow> Command \<Rightarrow> error + UndoSystemData" where
  "placeAndExecute us command =
     (let offsetToPlaceNewCommand = undoCursorTail us
      in bindE (setSlot us offsetToPlaceNewCommand (Some command)) (\<lambda>us1.
           bindE (u32_mod (u32_add (undoCursorTail us1) 1) (maxHistorySize us1)) (\<lambda>t.
             executeSlot
               (us1\<lparr>numCommands := u32_add (numCommands us1) 1, undoCursorTail := t\<rparr>)
               offsetToPlaceNewCommand)))"

definition pushAndExecuteCommand :: "UndoSystemData \<Rightarrow> Command \<Rightarrow> error + UndoSystemData" where
  "pushAndExecuteCommand us command =
     bindE (truncateRedoBranch us) (\<lambda>us1.
       bindE (evictOldest us1) (\<lambda>us2.
         placeAndExecute us2 command))"

definition applyU8Vec4ToChildren ::
  "UndoSystemData \<Rightarrow> AnimObjId \<Rightarrow> U8Vec4PropType \<Rightarrow> error + UndoSystemData" where
  "applyU8Vec4ToChildren us objId propType =
     pushAndExecuteCommand us (ApplyU8Vec4ToChildrenCommand objId propType Map.empty)"

definition setU8Vec4Prop ::
  "UndoSystemData \<Rightarrow> AnimObjId \<Rightarrow> u8vec4 \<Rightarrow> u8vec4 \<Rightarrow> U8Vec4PropType \<Rightarrow> error + UndoSystemData" where
  "setU8Vec4Prop us objId oldVec newVec propType =
     pushAndExecuteCommand us (ModifyU8Vec4Command objId oldVec newVec propType)"

subsection \<open>Reading and writing the selected member\<close>

text \<open>
  The member a \<^verbatim>\<open>U8Vec4PropType\<close> selects, for stating what a command does to an
  object.
\<close>

definition withSelectedProp :: "U8Vec4PropType \<Rightarrow> u8vec4 \<Rightarrow> AnimObject \<Rightarrow> AnimObject" where
  "withSelectedProp propType v obj =
     (case propType of
        FillColor \<Rightarrow> obj\<lparr>fillColorStart := v\<rparr>
      | StrokeColor \<Rightarrow> obj\<lparr>strokeColorStart := v\<rparr>)"

definition selectedProp :: "U8Vec4PropType \<Rightarrow> AnimObject \<Rightarrow> u8vec4" where
  "selectedProp propType obj =
     (case propType of FillColor \<Rightarrow> fillColorStart obj | StrokeColor \<Rightarrow> strokeColorStart obj)"

subsection \<open>Concrete stores and logs\<close>

text \<open>
  A store with no object, and a store with a target \<open>1\<close> (red fill, blue stroke) whose
  breadth-first traversal yields \<open>2\<close> and \<open>3\<close>; object \<open>4\<close> is in the store but not
  below \<open>1\<close>.
\<close>

definition emptyStore :: AnimationManagerData where
  "emptyStore = \<lparr>objects = Map.empty, breadthFirst = (\<lambda>i. []), stateUpdates = []\<rparr>"

definition red :: u8vec4 where "red = (255, 0, 0, 255)"
definition green :: u8vec4 where "green = (0, 255, 0, 255)"
definition blue :: u8vec4 where "blue = (0, 0, 255, 255)"
definition yellow :: u8vec4 where "yellow = (255, 255, 0, 255)"

definition familyStore :: AnimationManagerData where
  "familyStore =
     \<lparr>objects = [1 \<mapsto> \<lparr>fillColorStart = red, strokeColorStart = blue\<rparr>,
                 2 \<mapsto> \<lparr>fillColorStart = green, strokeColorStart = yellow\<rparr>,
                 3 \<mapsto> \<lparr>fillColorStart = yellow, strokeColorStart = green\<rparr>,
                 4 \<mapsto> \<lparr>fillColorStart = blue, strokeColorStart = red\<rparr>],
      breadthFirst = (\<lambda>i. if i = 1 then [2, 3] else []),
      stateUpdates = []\<rparr>"

subsection \<open>The ring of retained commands\<close>

text \<open>
  \<open>slotIndex us j\<close> is the array index of the \<open>j\<close>-th retained command, counted from the
  head cursor. \<open>appliedCount us\<close> is the number of steps from the head cursor forward to
  the tail cursor: the commands that are applied and can be undone. \<open>retained us\<close> lists
  the slots of the retained commands, oldest first.
\<close>

definition slotIndex :: "UndoSystemData \<Rightarrow> nat \<Rightarrow> nat" where
  "slotIndex us j = (undoCursorHead us + j) mod maxHistorySize us"

definition appliedCount :: "UndoSystemData \<Rightarrow> nat" where
  "appliedCount us =
     (undoCursorTail us + maxHistorySize us - undoCursorHead us) mod maxHistorySize us"

text \<open>
  The invariant of the log: a capacity of at least 2 that came from a positive \<^verbatim>\<open>int\<close>,
  cursors inside the array, fewer commands than slots, the tail cursor within the
  retained commands, and a live command in exactly the retained slots.
\<close>

definition wellFormed :: "UndoSystemData \<Rightarrow> bool" where
  "wellFormed us \<longleftrightarrow>
     2 \<le> maxHistorySize us \<and> maxHistorySize us < 2 ^ 31 \<and>
     length (history us) = maxHistorySize us \<and>
     undoCursorHead us < maxHistorySize us \<and>
     undoCursorTail us < maxHistorySize us \<and>
     numCommands us < maxHistorySize us \<and>
     appliedCount us \<le> numCommands us \<and>
     (\<forall>j < maxHistorySize us. (history us ! slotIndex us j \<noteq> None) = (j < numCommands us))"

definition retained :: "UndoSystemData \<Rightarrow> Command option list" where
  "retained us = map (\<lambda>j. history us ! slotIndex us j) [0..<numCommands us]"

subsection \<open>Sequences of operations\<close>

text \<open>
  \<open>bookkeeping\<close> is the triple of head cursor, tail cursor and count. \<open>pushAll\<close> records
  a list of commands one after the other and \<open>undoTimes k\<close> calls \<^verbatim>\<open>undo\<close> \<open>k\<close> times;
  both stop at the first error. \<open>forgetSnapshot\<close> is a command as it was constructed,
  without what \<^verbatim>\<open>execute\<close> stored in it, and \<open>recorded\<close> lists the retained commands
  in that form, oldest first.
\<close>

definition bookkeeping :: "UndoSystemData \<Rightarrow> nat \<times> nat \<times> nat" where
  "bookkeeping us = (undoCursorHead us, undoCursorTail us, numCommands us)"

fun pushAll :: "UndoSystemData \<Rightarrow> Command list \<Rightarrow> error + UndoSystemData" where
  "pushAll us [] = Inr us"
| "pushAll us (command # rest) = bindE (pushAndExecuteCommand us command) (\<lambda>us'. pushAll us' rest)"

fun undoTimes :: "nat \<Rightarrow> UndoSystemData \<Rightarrow> error + UndoSystemData" where
  "undoTimes 0 us = Inr us"
| "undoTimes (Suc k) us = bindE (undo us) (undoTimes k)"

fun forgetSnapshot :: "Command \<Rightarrow> Command" where
  "forgetSnapshot (ModifyU8Vec4Command objId oldVec newVec propType) =
     ModifyU8Vec4Command objId oldVec newVec propType"
| "forgetSnapshot (ApplyU8Vec4ToChildrenCommand objId propType oldProps) =
     ApplyU8Vec4ToChildrenCommand objId propType Map.empty"

definition recorded :: "UndoSystemData \<Rightarrow> Command option list" where
  "recorded us = map (map_option forgetSnapshot) (retained us)"

definition logFields ::
  "UndoSystemData \<Rightarrow> nat \<times> nat \<times> nat \<times> nat \<times> Command option list" where
  "logFields us =
     (numCommands us, undoCursorHead us, undoCursorTail us, maxHistorySize us, history us)"

subsection \<open>A log of capacity 3\<close>

text \<open>
  The log that \<^verbatim>\<open>init\<close> returns for a history of 3 over \<open>familyStore\<close>, four commands
  on the fill colour of object \<open>1\<close>, and the logs after recording the first, after
  recording the second, and after one \<^verbatim>\<open>undo\<close>. \<open>orphanStore\<close> is a store whose
  traversal from \<open>1\<close> yields \<open>3\<close> although no object \<open>3\<close> is stored.
\<close>

definition log3 :: UndoSystemData where
  "log3 = \<lparr>am = familyStore, history = [None, None, None], numCommands = 0,
           undoCursorTail = 0, undoCursorHead = 0, maxHistorySize = 3\<rparr>"

definition orphanStore :: AnimationManagerData where
  "orphanStore =
     \<lparr>objects = [1 \<mapsto> \<lparr>fillColorStart = red, strokeColorStart = blue\<rparr>,
                 2 \<mapsto> \<lparr>fillColorStart = green, strokeColorStart = yellow\<rparr>],
      breadthFirst = (\<lambda>i. if i = 1 then [2, 3] else []),
      stateUpdates = []\<rparr>"

definition fillGreen :: Command where "fillGreen = ModifyU8Vec4Command 1 red green FillColor"

definition fillBlue :: Command where "fillBlue = ModifyU8Vec4Command 1 green blue FillColor"

definition fillYellow :: Command where "fillYellow = ModifyU8Vec4Command 1 blue yellow FillColor"

definition fillRed :: Command where "fillRed = ModifyU8Vec4Command 1 yellow red FillColor"

definition storeGreen :: AnimationManagerData where
  "storeGreen = ModifyU8Vec4Command_execute 1 red green FillColor familyStore"

definition storeBlue :: AnimationManagerData where
  "storeBlue = ModifyU8Vec4Command_execute 1 green blue FillColor storeGreen"

definition storeUndone :: AnimationManagerData where
  "storeUndone = ModifyU8Vec4Command_undo 1 green blue FillColor storeBlue"

definition logGreen :: UndoSystemData where
  "logGreen = \<lparr>am = storeGreen, history = [Some fillGreen, None, None], numCommands = 1,
                undoCursorTail = 1, undoCursorHead = 0, maxHistorySize = 3\<rparr>"

definition logBlue :: UndoSystemData where
  "logBlue = \<lparr>am = storeBlue, history = [Some fillGreen, Some fillBlue, None], numCommands = 2,
               undoCursorTail = 2, undoCursorHead = 0, maxHistorySize = 3\<rparr>"

definition logUndone :: UndoSystemData where
  "logUndone = \<lparr>am = storeUndone, history = [Some fillGreen, Some fillBlue, None], numCommands = 2,
                 undoCursorTail = 1, undoCursorHead = 0, maxHistorySize = 3\<rparr>"

subsection \<open>The graph changes between operations\<close>

text \<open>
  The rest of the application changes the store between two operations of the log:
  \<open>detach3\<close> takes object \<open>3\<close> out of the traversal from \<open>1\<close>, \<open>attach3\<close> puts it back,
  and \<open>attach3Blue\<close> puts it back with a blue fill. \<open>staleSnapshotRun\<close> records a
  cascading command on \<open>1\<close>, undoes it, detaches \<open>3\<close>, redoes the command, and attaches
  \<open>3\<close> again with a blue fill.
\<close>

definition detach3 :: "AnimationManagerData \<Rightarrow> AnimationManagerData" where
  "detach3 a = a\<lparr>breadthFirst := (\<lambda>i. if i = 1 then [2] else [])\<rparr>"

definition attach3 :: "AnimationManagerData \<Rightarrow> AnimationManagerData" where
  "attach3 a = a\<lparr>breadthFirst := (\<lambda>i. if i = 1 then [2, 3] else [])\<rparr>"

definition attach3Blue :: "AnimationManagerData \<Rightarrow> AnimationManagerData" where
  "attach3Blue a =
     writeObject (a\<lparr>breadthFirst := (\<lambda>i. if i = 1 then [2, 3] else [])\<rparr>) 3
       \<lparr>fillColorStart = blue, strokeColorStart = green\<rparr>"

definition staleSnapshotRun :: "error + UndoSystemData" where
  "staleSnapshotRun =
     bindE (applyU8Vec4ToChildren log3 1 FillColor) (\<lambda>us1.
       bindE (undo us1) (\<lambda>us2.
         bindE (redo (us2\<lparr>am := detach3 (am us2)\<rparr>)) (\<lambda>us3.
           Inr (us3\<lparr>am := attach3Blue (am us3)\<rparr>))))"

section \<open>Properties\<close>

subsection \<open>Arithmetic on the ring\<close>

lemma u32_add_small: "a + b < 2 ^ 32 \<Longrightarrow> u32_add a b = a + b"
  by (simp add: u32_add_def)

lemma u32_sub_small:
  assumes "b \<le> a" "a < 2 ^ 32"
  shows "u32_sub a b = a - b"
proof -
  have b: "b < 2 ^ 32" using assms by simp
  have "a + 2 ^ 32 - b = (a - b) + 2 ^ 32" using assms by simp
  then have "(a + 2 ^ 32 - b) mod 2 ^ 32 = (a - b) mod 2 ^ 32" by (simp del: power_numeral)
  also have "\<dots> = a - b" using assms by simp
  finally show ?thesis unfolding u32_sub_def mod_less [OF b] .
qed

lemma ring_inj_le:
  assumes "j \<le> k" "k < c" "(h + j) mod c = (h + k) mod (c::nat)"
  shows "j = k"
proof -
  have "(h + k) mod c = (h + j) mod c \<longleftrightarrow> c dvd (h + k) - (h + j)"
    using assms(1) by (intro mod_eq_dvd_iff_nat) simp
  then have "c dvd k - j" using assms(3) by simp
  moreover have "k - j < c" using assms by simp
  ultimately have "k - j = 0" by (meson dvd_imp_le not_less zero_less_iff_neq_zero neq0_conv)
  then show ?thesis using assms(1) by simp
qed

lemma ring_inj:
  assumes "j < c" "k < c" "(h + j) mod c = (h + k) mod (c::nat)"
  shows "j = k"
proof (cases "j \<le> k")
  case True
  then show ?thesis using assms ring_inj_le by blast
next
  case False
  then have "k \<le> j" by simp
  then show ?thesis using assms ring_inj_le [of k j c h] by simp
qed

lemma ring_Suc: "((h + j) mod c + 1) mod c = (h + (j + 1)) mod (c::nat)"
  by (simp add: mod_Suc_eq)

lemma ring_dist:
  assumes "h < c" "j < c"
  shows "((h + j) mod c + c - h) mod c = (j::nat)"
proof (cases "h + j < c")
  case True
  then show ?thesis using assms by simp
next
  case False
  then have "(h + j) mod c = h + j - c" using assms by (simp add: le_mod_geq)
  then show ?thesis using assms False by simp
qed

lemma ring_pos:
  assumes "h < c" "p < c"
  shows "(h + (p + c - h) mod c) mod c = (p::nat)"
proof (cases "h \<le> p")
  case True
  have "(p + c - h) mod c = ((p - h) + c) mod c"
    by (rule arg_cong [where f = "\<lambda>x. x mod c"]) (use True in arith)
  also have "\<dots> = p - h" using assms by simp
  finally have "h + (p + c - h) mod c = p" using True by arith
  then show ?thesis using assms by simp
next
  case False
  then have "p + c - h < c" using assms by arith
  then have "h + (p + c - h) mod c = p + c" using False assms by simp
  then show ?thesis using assms by simp
qed

subsection \<open>The truncation loop\<close>

lemma destroySlot_live:
  "i < length (history us) \<Longrightarrow> history us ! i = Some c \<Longrightarrow>
     destroySlot us i = Inr (us\<lparr>history := (history us)[i := None]\<rparr>)"
  by (simp add: destroySlot_def liveCommand_def setSlot_def bindE_def)

lemma removeCommandsAfterTail_window:
  assumes "0 < maxHistorySize us" "maxHistorySize us < 2 ^ 31"
    and "length (history us) = maxHistorySize us"
    and "undoCursorHead us < maxHistorySize us"
    and "numCommands us < maxHistorySize us"
    and "k \<le> numCommands us"
    and "\<forall>j. k \<le> j \<and> j < numCommands us \<longrightarrow>
           history us ! ((undoCursorHead us + j) mod maxHistorySize us) \<noteq> None"
    and "r + (numCommands us - k) < 2 ^ 32"
  shows "\<exists>hist.
           removeCommandsAfterTail us ((undoCursorHead us + k) mod maxHistorySize us) r =
             Inr (us\<lparr>history := hist\<rparr>, r + (numCommands us - k)) \<and>
           length hist = maxHistorySize us \<and>
           (\<forall>j < maxHistorySize us.
              hist ! ((undoCursorHead us + j) mod maxHistorySize us) =
                (if k \<le> j \<and> j < numCommands us then None
                 else history us ! ((undoCursorHead us + j) mod maxHistorySize us)))"
  using assms
proof (induction d \<equiv> "numCommands us - k" arbitrary: us k r)
  case 0
  let ?c = "maxHistorySize us" and ?h = "undoCursorHead us" and ?n = "numCommands us"
  have kn: "k = ?n" using 0 by simp
  have sum: "u32_add ?h ?n = ?h + ?n" using 0(3,5,6) by (intro u32_add_small) simp
  have "removeCommandsAfterTail us ((?h + k) mod ?c) r = Inr (us, r)"
    using 0(2) kn sum by (subst removeCommandsAfterTail.simps) simp
  then show ?case using kn 0(4) by (intro exI [of _ "history us"]) auto
next
  case (Suc d)
  let ?c = "maxHistorySize us" and ?h = "undoCursorHead us" and ?n = "numCommands us"
  let ?i = "(?h + k) mod ?c"
  have kn: "k < ?n" using Suc(2) by simp
  have kc: "k < ?c" using kn Suc(7) by simp
  have sum: "u32_add ?h ?n = ?h + ?n" using Suc(4,6,7) by (intro u32_add_small) simp
  have ic: "?i < ?c" using Suc(3) by simp
  have ne: "?i \<noteq> (?h + ?n) mod ?c" using ring_inj [of k ?c ?n ?h] kn Suc(7) by auto
  obtain cmd where cmd: "history us ! ?i = Some cmd" using Suc(9) kn by auto
  let ?us1 = "us\<lparr>history := (history us)[?i := None]\<rparr>"
  have d: "destroySlot us ?i = Inr ?us1" using destroySlot_live [of ?i us cmd] ic cmd Suc(5) by simp
  have next_i: "u32_add ?i 1 mod ?c = (?h + (k + 1)) mod ?c"
  proof -
    have "u32_add ?i 1 = ?i + 1" using ic Suc(4) by (intro u32_add_small) simp
    then show ?thesis using ring_Suc [of ?h k ?c] by simp
  qed
  have next_r: "u32_add r 1 = r + 1" using Suc(10) kn by (intro u32_add_small) simp
  have unfold: "removeCommandsAfterTail us ?i r =
                  removeCommandsAfterTail ?us1 ((?h + (k + 1)) mod ?c) (r + 1)"
    using Suc(3) ne sum d next_i next_r by (subst removeCommandsAfterTail.simps) simp
  have live1: "\<forall>j. k + 1 \<le> j \<and> j < numCommands ?us1 \<longrightarrow>
           history ?us1 ! ((undoCursorHead ?us1 + j) mod maxHistorySize ?us1) \<noteq> None"
  proof (intro allI impI)
    fix j assume j: "k + 1 \<le> j \<and> j < numCommands ?us1"
    then have "(?h + j) mod ?c \<noteq> ?i" using ring_inj [of j ?c k ?h] kc Suc(7) by auto
    moreover have "history us ! ((?h + j) mod ?c) \<noteq> None" using Suc(9) j by simp
    ultimately show "history ?us1 ! ((undoCursorHead ?us1 + j) mod maxHistorySize ?us1) \<noteq> None"
      by simp
  qed
  have "\<exists>hist.
           removeCommandsAfterTail ?us1 ((undoCursorHead ?us1 + (k + 1)) mod maxHistorySize ?us1) (r + 1) =
             Inr (?us1\<lparr>history := hist\<rparr>, (r + 1) + (numCommands ?us1 - (k + 1))) \<and>
           length hist = maxHistorySize ?us1 \<and>
           (\<forall>j < maxHistorySize ?us1.
              hist ! ((undoCursorHead ?us1 + j) mod maxHistorySize ?us1) =
                (if k + 1 \<le> j \<and> j < numCommands ?us1 then None
                 else history ?us1 ! ((undoCursorHead ?us1 + j) mod maxHistorySize ?us1)))"
  proof (rule Suc(1))
    show "d = numCommands ?us1 - (k + 1)" using Suc(2) by simp
    show "0 < maxHistorySize ?us1" using Suc(3) by simp
    show "maxHistorySize ?us1 < 2 ^ 31" using Suc(4) by simp
    show "length (history ?us1) = maxHistorySize ?us1" using Suc(5) by simp
    show "undoCursorHead ?us1 < maxHistorySize ?us1" using Suc(6) by simp
    show "numCommands ?us1 < maxHistorySize ?us1" using Suc(7) by simp
    show "k + 1 \<le> numCommands ?us1" using kn by simp
    show "\<forall>j. k + 1 \<le> j \<and> j < numCommands ?us1 \<longrightarrow>
           history ?us1 ! ((undoCursorHead ?us1 + j) mod maxHistorySize ?us1) \<noteq> None"
      by (rule live1)
    show "r + 1 + (numCommands ?us1 - (k + 1)) < 2 ^ 32" using Suc(10) kn by simp
  qed
  then obtain hist where
    run: "removeCommandsAfterTail ?us1 ((?h + (k + 1)) mod ?c) (r + 1) =
            Inr (?us1\<lparr>history := hist\<rparr>, (r + 1) + (?n - (k + 1)))"
    and len: "length hist = ?c"
    and slots: "\<forall>j < ?c. hist ! ((?h + j) mod ?c) =
                (if k + 1 \<le> j \<and> j < ?n then None
                 else (history us)[?i := None] ! ((?h + j) mod ?c))"
    by auto
  have cnt: "(r + 1) + (?n - (k + 1)) = r + (?n - k)" using kn by simp
  have res: "removeCommandsAfterTail us ?i r = Inr (us\<lparr>history := hist\<rparr>, r + (?n - k))"
    using unfold run cnt by simp
  have slots': "\<forall>j < ?c. hist ! ((?h + j) mod ?c) =
                (if k \<le> j \<and> j < ?n then None else history us ! ((?h + j) mod ?c))"
  proof (intro allI impI)
    fix j assume jc: "j < ?c"
    show "hist ! ((?h + j) mod ?c) =
            (if k \<le> j \<and> j < ?n then None else history us ! ((?h + j) mod ?c))"
    proof (cases "j = k")
      case True
      then show ?thesis using slots jc kn ic Suc(5) by simp
    next
      case False
      then have "(?h + j) mod ?c \<noteq> ?i" using ring_inj [of j ?c k ?h] jc kc by auto
      then show ?thesis using slots jc False by auto
    qed
  qed
  show ?case using res len slots' by (intro exI [of _ hist]) simp
qed

subsection \<open>Consequences of the invariant\<close>

lemma wellFormedD:
  assumes "wellFormed us"
  shows "2 \<le> maxHistorySize us" "0 < maxHistorySize us" "maxHistorySize us < 2 ^ 31"
    "length (history us) = maxHistorySize us"
    "undoCursorHead us < maxHistorySize us" "undoCursorTail us < maxHistorySize us"
    "numCommands us < maxHistorySize us" "appliedCount us \<le> numCommands us"
    "appliedCount us < maxHistorySize us"
    "\<And>j. j < maxHistorySize us \<Longrightarrow> (history us ! slotIndex us j \<noteq> None) = (j < numCommands us)"
  using assms by (auto simp: wellFormed_def)

lemma wf_tail: "wellFormed us \<Longrightarrow> undoCursorTail us = slotIndex us (appliedCount us)"
  using ring_pos [of "undoCursorHead us" "maxHistorySize us" "undoCursorTail us"]
  by (simp add: wellFormed_def slotIndex_def appliedCount_def)

lemma appliedCount_eqI:
  assumes "undoCursorHead us < maxHistorySize us" "k < maxHistorySize us"
    "undoCursorTail us = (undoCursorHead us + k) mod maxHistorySize us"
  shows "appliedCount us = k"
  using ring_dist [of "undoCursorHead us" "maxHistorySize us" k] assms
  by (simp add: appliedCount_def)

lemma slotIndex_lt: "0 < maxHistorySize us \<Longrightarrow> slotIndex us j < maxHistorySize us"
  by (simp add: slotIndex_def)

lemma slotIndex_inj:
  "j < maxHistorySize us \<Longrightarrow> k < maxHistorySize us \<Longrightarrow> slotIndex us j = slotIndex us k \<Longrightarrow> j = k"
  unfolding slotIndex_def by (rule ring_inj)

lemma slotIndex_0: "undoCursorHead us < maxHistorySize us \<Longrightarrow> slotIndex us 0 = undoCursorHead us"
  by (simp add: slotIndex_def)

lemma wf_live:
  assumes "wellFormed us" "j < numCommands us"
  shows "\<exists>cmd. history us ! slotIndex us j = Some cmd"
  using wellFormedD(10) [OF assms(1), of j] wellFormedD(7) [OF assms(1)] assms(2) by auto

lemma wf_empty:
  assumes "wellFormed us" "numCommands us \<le> j" "j < maxHistorySize us"
  shows "history us ! slotIndex us j = None"
  using wellFormedD(10) [OF assms(1), of j] assms(2,3) by auto

lemma truncateRedoBranch_wf:
  assumes wf: "wellFormed us"
  shows "\<exists>hist. truncateRedoBranch us = Inr (us\<lparr>history := hist, numCommands := appliedCount us\<rparr>) \<and>
           length hist = maxHistorySize us \<and>
           (\<forall>j < maxHistorySize us.
              hist ! slotIndex us j = (if j < appliedCount us then history us ! slotIndex us j else None))"
proof -
  note d = wellFormedD [OF wf]
  let ?k = "appliedCount us" and ?n = "numCommands us"
  have "\<exists>hist.
           removeCommandsAfterTail us ((undoCursorHead us + ?k) mod maxHistorySize us) 0 =
             Inr (us\<lparr>history := hist\<rparr>, 0 + (?n - ?k)) \<and>
           length hist = maxHistorySize us \<and>
           (\<forall>j < maxHistorySize us.
              hist ! ((undoCursorHead us + j) mod maxHistorySize us) =
                (if ?k \<le> j \<and> j < ?n then None
                 else history us ! ((undoCursorHead us + j) mod maxHistorySize us)))"
  proof (rule removeCommandsAfterTail_window)
    show "\<forall>j. ?k \<le> j \<and> j < ?n \<longrightarrow>
           history us ! ((undoCursorHead us + j) mod maxHistorySize us) \<noteq> None"
      using wf_live [OF wf] by (auto simp: slotIndex_def)
    show "0 + (?n - ?k) < 2 ^ 32" using d(3,7) by simp
  qed (use d in simp_all)
  then obtain hist where
    run: "removeCommandsAfterTail us (undoCursorTail us) 0 = Inr (us\<lparr>history := hist\<rparr>, ?n - ?k)"
    and len: "length hist = maxHistorySize us"
    and slots: "\<forall>j < maxHistorySize us.
              hist ! slotIndex us j =
                (if ?k \<le> j \<and> j < ?n then None else history us ! slotIndex us j)"
    using wf_tail [OF wf] by (auto simp: slotIndex_def)
  have sub: "u32_sub ?n (?n - ?k) = ?k"
    using d(3,7,8) u32_sub_small [of "?n - ?k" ?n] by simp
  have res: "truncateRedoBranch us = Inr (us\<lparr>history := hist, numCommands := ?k\<rparr>)"
    by (simp add: truncateRedoBranch_def run bindE_def sub)
  have "\<forall>j < maxHistorySize us.
          hist ! slotIndex us j = (if j < ?k then history us ! slotIndex us j else None)"
  proof (intro allI impI)
    fix j assume j: "j < maxHistorySize us"
    show "hist ! slotIndex us j = (if j < ?k then history us ! slotIndex us j else None)"
      using slots j wf_empty [OF wf, of j] d(8) by auto
  qed
  then show ?thesis using res len by blast
qed

lemma truncateRedoBranch_result:
  assumes wf: "wellFormed us"
  shows "\<exists>us1. truncateRedoBranch us = Inr us1 \<and> wellFormed us1 \<and>
           appliedCount us1 = numCommands us1 \<and> numCommands us1 = appliedCount us \<and>
           am us1 = am us \<and> undoCursorHead us1 = undoCursorHead us \<and>
           undoCursorTail us1 = undoCursorTail us \<and> maxHistorySize us1 = maxHistorySize us \<and>
           retained us1 = take (appliedCount us) (retained us) \<and>
           (\<forall>j < maxHistorySize us.
              history us1 ! slotIndex us j =
                (if j < appliedCount us then history us ! slotIndex us j else None))"
proof -
  note d = wellFormedD [OF wf]
  let ?k = "appliedCount us"
  obtain hist where
    res: "truncateRedoBranch us = Inr (us\<lparr>history := hist, numCommands := ?k\<rparr>)"
    and len: "length hist = maxHistorySize us"
    and slots: "\<forall>j < maxHistorySize us.
              hist ! slotIndex us j = (if j < ?k then history us ! slotIndex us j else None)"
    using truncateRedoBranch_wf [OF wf] by blast
  let ?us1 = "us\<lparr>history := hist, numCommands := ?k\<rparr>"
  have si: "\<And>j. slotIndex ?us1 j = slotIndex us j" by (simp add: slotIndex_def)
  have ac: "appliedCount ?us1 = ?k" by (simp add: appliedCount_def)
  have live: "\<forall>j < maxHistorySize ?us1. (history ?us1 ! slotIndex ?us1 j \<noteq> None) = (j < numCommands ?us1)"
  proof (intro allI impI)
    fix j assume j: "j < maxHistorySize ?us1"
    show "(history ?us1 ! slotIndex ?us1 j \<noteq> None) = (j < numCommands ?us1)"
    proof (cases "j < ?k")
      case True
      then have "history us ! slotIndex us j \<noteq> None" using wf_live [OF wf, of j] d(8) by auto
      then show ?thesis using True slots j by (simp add: si)
    next
      case False
      then show ?thesis using slots j by (simp add: si)
    qed
  qed
  have wf1: "wellFormed ?us1"
    unfolding wellFormed_def using d len live ac by simp
  have ret: "retained ?us1 = take ?k (retained us)"
  proof (rule nth_equalityI)
    show "length (retained ?us1) = length (take ?k (retained us))"
      using d(8) by (simp add: retained_def)
  next
    fix i assume "i < length (retained ?us1)"
    then have i: "i < ?k" by (simp add: retained_def)
    then have "i < maxHistorySize us" "i < numCommands us" using d(8,9) by simp_all
    then show "retained ?us1 ! i = take ?k (retained us) ! i"
      using i slots by (simp add: retained_def si)
  qed
  show ?thesis
    using res wf1 ac ret slots by (intro exI [of _ ?us1]) simp
qed

lemma evictOldest_not_full:
  assumes wf: "wellFormed us" and eq: "appliedCount us = numCommands us"
    and room: "numCommands us + 1 < maxHistorySize us"
  shows "evictOldest us = Inr us"
proof -
  note d = wellFormedD [OF wf]
  let ?c = "maxHistorySize us" and ?h = "undoCursorHead us" and ?n = "numCommands us"
  have t: "undoCursorTail us = (?h + ?n) mod ?c" using wf_tail [OF wf] eq by (simp add: slotIndex_def)
  have "u32_add (undoCursorTail us) 1 = undoCursorTail us + 1"
    using d(3,6) by (intro u32_add_small) simp
  then have nx: "u32_add (undoCursorTail us) 1 mod ?c = (?h + (?n + 1)) mod ?c"
    using t ring_Suc [of ?h ?n ?c] by simp
  have "(?h + (?n + 1)) mod ?c \<noteq> ?h"
  proof
    assume "(?h + (?n + 1)) mod ?c = ?h"
    then have "(?h + (?n + 1)) mod ?c = (?h + 0) mod ?c" using d(5) by simp
    then have "?n + 1 = 0" using room d(2) by (intro ring_inj [of "?n + 1" ?c 0 ?h]) simp_all
    then show False by simp
  qed
  then show ?thesis using nx d(2) by (simp add: evictOldest_def u32_mod_def bindE_def)
qed

lemma evictOldest_full:
  assumes wf: "wellFormed us" and eq: "appliedCount us = numCommands us"
    and full: "numCommands us + 1 = maxHistorySize us"
  shows "evictOldest us =
           Inr (us\<lparr>history := (history us)[undoCursorHead us := None],
                   undoCursorHead := (undoCursorHead us + 1) mod maxHistorySize us,
                   numCommands := numCommands us - 1\<rparr>)"
proof -
  note d = wellFormedD [OF wf]
  let ?c = "maxHistorySize us" and ?h = "undoCursorHead us" and ?n = "numCommands us"
  have t: "undoCursorTail us = (?h + ?n) mod ?c" using wf_tail [OF wf] eq by (simp add: slotIndex_def)
  have "u32_add (undoCursorTail us) 1 = undoCursorTail us + 1"
    using d(3,6) by (intro u32_add_small) simp
  then have "u32_add (undoCursorTail us) 1 mod ?c = (?h + (?n + 1)) mod ?c"
    using t ring_Suc [of ?h ?n ?c] by simp
  also have "\<dots> = ?h" using full d(5) by simp
  finally have nx: "u32_add (undoCursorTail us) 1 mod ?c = ?h" .
  have "0 < ?n" using full d(1) by simp
  then obtain cmd where "history us ! slotIndex us 0 = Some cmd" using wf_live [OF wf, of 0] by auto
  then have cmd: "history us ! ?h = Some cmd" using slotIndex_0 [of us] d(5) by simp
  have ds: "destroySlot us ?h = Inr (us\<lparr>history := (history us)[?h := None]\<rparr>)"
    using destroySlot_live [of ?h us cmd] cmd d(4,5) by simp
  have h1: "u32_add ?h 1 = ?h + 1" using d(3,5) by (intro u32_add_small) simp
  have n1: "u32_sub ?n 1 = ?n - 1" using \<open>0 < ?n\<close> d(3,7) by (intro u32_sub_small) simp_all
  show ?thesis
    using nx d(2) ds h1 n1 by (simp add: evictOldest_def u32_mod_def bindE_def)
qed

lemma evictOldest_full_result:
  assumes wf: "wellFormed us" and eq: "appliedCount us = numCommands us"
    and full: "numCommands us + 1 = maxHistorySize us"
  shows "\<exists>us2. evictOldest us = Inr us2 \<and> wellFormed us2 \<and>
           appliedCount us2 = numCommands us2 \<and> numCommands us2 = numCommands us - 1 \<and>
           am us2 = am us \<and>
           undoCursorHead us2 = (undoCursorHead us + 1) mod maxHistorySize us \<and>
           undoCursorTail us2 = undoCursorTail us \<and> maxHistorySize us2 = maxHistorySize us \<and>
           retained us2 = tl (retained us)"
proof -
  note d = wellFormedD [OF wf]
  let ?c = "maxHistorySize us" and ?h = "undoCursorHead us" and ?n = "numCommands us"
  define us2 where "us2 = us\<lparr>history := (history us)[?h := None],
                   undoCursorHead := (?h + 1) mod ?c, numCommands := ?n - 1\<rparr>"
  have f [simp]: "history us2 = (history us)[?h := None]" "undoCursorHead us2 = (?h + 1) mod ?c"
    "numCommands us2 = ?n - 1" "maxHistorySize us2 = ?c" "undoCursorTail us2 = undoCursorTail us"
    "am us2 = am us"
    by (simp_all add: us2_def)
  have res: "evictOldest us = Inr us2" unfolding us2_def by (rule evictOldest_full [OF wf eq full])
  have n0: "0 < ?n" using full d(1) by simp
  have si: "\<And>j. slotIndex us2 j = slotIndex us (j + 1)"
    by (simp add: slotIndex_def mod_Suc_eq add.commute mod_add_right_eq)
  have t: "undoCursorTail us = slotIndex us ?n" using wf_tail [OF wf] eq by simp
  have ac: "appliedCount us2 = ?n - 1"
  proof (rule appliedCount_eqI)
    show "undoCursorHead us2 < maxHistorySize us2" using d(2) by simp
    show "?n - 1 < maxHistorySize us2" using d(7) by simp
    have "slotIndex us2 (?n - 1) = slotIndex us ?n" using n0 by (simp add: si)
    then show "undoCursorTail us2 = (undoCursorHead us2 + (?n - 1)) mod maxHistorySize us2"
      using t by (simp add: slotIndex_def)
  qed
  have keep: "\<And>j. j + 1 < ?c \<Longrightarrow> history us2 ! slotIndex us (j + 1) = history us ! slotIndex us (j + 1)"
  proof -
    fix j assume j: "j + 1 < ?c"
    have "slotIndex us (j + 1) \<noteq> slotIndex us 0"
      using slotIndex_inj [of "j + 1" us 0] j d(2) by auto
    then have "slotIndex us (j + 1) \<noteq> ?h" using slotIndex_0 [of us] d(5) by simp
    then show "history us2 ! slotIndex us (j + 1) = history us ! slotIndex us (j + 1)" by simp
  qed
  have live: "\<forall>j < maxHistorySize us2. (history us2 ! slotIndex us2 j \<noteq> None) = (j < numCommands us2)"
  proof (intro allI impI)
    fix j assume j: "j < maxHistorySize us2"
    show "(history us2 ! slotIndex us2 j \<noteq> None) = (j < numCommands us2)"
    proof (cases "j + 1 < ?c")
      case True
      then show ?thesis using keep [OF True] d(10) [of "j + 1"] by (simp add: si) arith
    next
      case False
      then have jc: "j + 1 = ?c" using j by simp
      then have "slotIndex us (j + 1) = ?h" using d(5) by (simp add: slotIndex_def)
      then show ?thesis using jc full d(4,5) by (simp add: si)
    qed
  qed
  have wf2: "wellFormed us2"
    unfolding wellFormed_def using d live ac
    by (simp add: slotIndex_lt [of us, unfolded slotIndex_def])
  have ret: "retained us2 = tl (retained us)"
  proof (rule nth_equalityI)
    show "length (retained us2) = length (tl (retained us))" by (simp add: retained_def)
  next
    fix i assume "i < length (retained us2)"
    then have i: "i < ?n - 1" by (simp add: retained_def)
    then have "i + 1 < ?c" using d(7) by simp
    moreover have "Suc i < ?n" using i by simp
    ultimately show "retained us2 ! i = tl (retained us) ! i"
      using i keep [of i] si [of i] by (simp add: retained_def nth_tl)
  qed
  show ?thesis using res wf2 ac ret by (intro exI [of _ us2]) simp
qed

lemma executeSlot_live:
  "i < length (history us) \<Longrightarrow> history us ! i = Some cmd \<Longrightarrow>
     executeSlot us i =
       Inr (us\<lparr>am := snd (Command_execute cmd (am us)),
               history := (history us)[i := Some (fst (Command_execute cmd (am us)))]\<rparr>)"
  by (simp add: executeSlot_def liveCommand_def setSlot_def bindE_def split: prod.splits)

lemma placeAndExecute_result:
  assumes wf: "wellFormed us" and eq: "appliedCount us = numCommands us"
    and room: "numCommands us + 1 < maxHistorySize us"
  shows "\<exists>us3. placeAndExecute us cmd = Inr us3 \<and> wellFormed us3 \<and>
           appliedCount us3 = numCommands us3 \<and> numCommands us3 = numCommands us + 1 \<and>
           am us3 = snd (Command_execute cmd (am us)) \<and>
           undoCursorHead us3 = undoCursorHead us \<and>
           undoCursorTail us3 = (undoCursorTail us + 1) mod maxHistorySize us \<and>
           maxHistorySize us3 = maxHistorySize us \<and>
           history us3 = (history us)[undoCursorTail us := Some (fst (Command_execute cmd (am us)))] \<and>
           retained us3 = retained us @ [Some (fst (Command_execute cmd (am us)))]"
proof -
  note d = wellFormedD [OF wf]
  let ?c = "maxHistorySize us" and ?h = "undoCursorHead us" and ?n = "numCommands us"
  let ?t = "undoCursorTail us"
  let ?cmd' = "fst (Command_execute cmd (am us))"
  define us3 where "us3 = us\<lparr>am := snd (Command_execute cmd (am us)),
                   history := (history us)[?t := Some ?cmd'],
                   numCommands := ?n + 1, undoCursorTail := (?t + 1) mod ?c\<rparr>"
  have f [simp]: "history us3 = (history us)[?t := Some ?cmd']" "undoCursorHead us3 = ?h"
    "numCommands us3 = ?n + 1" "maxHistorySize us3 = ?c" "undoCursorTail us3 = (?t + 1) mod ?c"
    "am us3 = snd (Command_execute cmd (am us))"
    by (simp_all add: us3_def)
  have t: "?t = slotIndex us ?n" using wf_tail [OF wf] eq by simp
  have t1: "u32_add ?t 1 = ?t + 1" using d(3,6) by (intro u32_add_small) simp
  have n1: "u32_add ?n 1 = ?n + 1" using d(3,7) by (intro u32_add_small) simp
  have res: "placeAndExecute us cmd = Inr us3"
    using d(2,4,6) t1 n1
    by (simp add: us3_def placeAndExecute_def setSlot_def bindE_def u32_mod_def executeSlot_def
          liveCommand_def Let_def split: prod.splits)
  have si: "\<And>j. slotIndex us3 j = slotIndex us j" by (simp add: slotIndex_def)
  have ac: "appliedCount us3 = ?n + 1"
  proof (rule appliedCount_eqI)
    show "undoCursorHead us3 < maxHistorySize us3" using d(5) by simp
    show "?n + 1 < maxHistorySize us3" using room by simp
    show "undoCursorTail us3 = (undoCursorHead us3 + (?n + 1)) mod maxHistorySize us3"
      using t ring_Suc [of ?h ?n ?c] by (simp add: slotIndex_def)
  qed
  have slot: "\<And>j. j < ?c \<Longrightarrow>
                history us3 ! slotIndex us j = (if j = ?n then Some ?cmd' else history us ! slotIndex us j)"
  proof -
    fix j assume j: "j < ?c"
    show "history us3 ! slotIndex us j = (if j = ?n then Some ?cmd' else history us ! slotIndex us j)"
    proof (cases "j = ?n")
      case True
      then show ?thesis using t d(4,6) by simp
    next
      case False
      then have "slotIndex us j \<noteq> ?t" using slotIndex_inj [of j us ?n] j d(7) t by auto
      then show ?thesis using False by simp
    qed
  qed
  have live: "\<forall>j < maxHistorySize us3. (history us3 ! slotIndex us3 j \<noteq> None) = (j < numCommands us3)"
  proof (intro allI impI)
    fix j assume j: "j < maxHistorySize us3"
    then have jc: "j < ?c" by simp
    show "(history us3 ! slotIndex us3 j \<noteq> None) = (j < numCommands us3)"
      unfolding si using slot [OF jc] d(10) [OF jc] by (cases "j = ?n") auto
  qed
  have wf3: "wellFormed us3"
    unfolding wellFormed_def using d live ac room by simp
  have ret: "retained us3 = retained us @ [Some ?cmd']"
  proof (rule nth_equalityI)
    show "length (retained us3) = length (retained us @ [Some ?cmd'])" by (simp add: retained_def)
  next
    fix i assume "i < length (retained us3)"
    then have i: "i < ?n + 1" by (simp add: retained_def)
    then have ic: "i < ?c" using room by simp
    have "retained us3 ! i = history us3 ! slotIndex us i"
      using i by (simp add: retained_def si del: upt_Suc)
    also have "\<dots> = (if i = ?n then Some ?cmd' else history us ! slotIndex us i)" by (rule slot [OF ic])
    also have "\<dots> = (retained us @ [Some ?cmd']) ! i"
      using i by (auto simp: retained_def nth_append)
    finally show "retained us3 ! i = (retained us @ [Some ?cmd']) ! i" .
  qed
  show ?thesis using res wf3 ac ret by (intro exI [of _ us3]) simp
qed

lemma pushAndExecuteCommand_result:
  assumes wf: "wellFormed us"
  shows "\<exists>us'. pushAndExecuteCommand us cmd = Inr us' \<and> wellFormed us' \<and>
           appliedCount us' = numCommands us' \<and>
           maxHistorySize us' = maxHistorySize us \<and>
           am us' = snd (Command_execute cmd (am us)) \<and>
           undoCursorTail us' = (undoCursorTail us + 1) mod maxHistorySize us \<and>
           history us' ! undoCursorTail us = Some (fst (Command_execute cmd (am us))) \<and>
           (if appliedCount us + 1 = maxHistorySize us
            then undoCursorHead us' = (undoCursorHead us + 1) mod maxHistorySize us \<and>
                 numCommands us' = appliedCount us \<and>
                 retained us' = tl (take (appliedCount us) (retained us))
                                  @ [Some (fst (Command_execute cmd (am us)))]
            else undoCursorHead us' = undoCursorHead us \<and>
                 numCommands us' = appliedCount us + 1 \<and>
                 retained us' = take (appliedCount us) (retained us)
                                  @ [Some (fst (Command_execute cmd (am us)))])"
proof -
  note d = wellFormedD [OF wf]
  obtain us1 where t: "truncateRedoBranch us = Inr us1" and wf1: "wellFormed us1"
    and eq1: "appliedCount us1 = numCommands us1" and n1: "numCommands us1 = appliedCount us"
    and f1: "am us1 = am us" "undoCursorHead us1 = undoCursorHead us"
      "undoCursorTail us1 = undoCursorTail us" "maxHistorySize us1 = maxHistorySize us"
    and r1: "retained us1 = take (appliedCount us) (retained us)"
    using truncateRedoBranch_result [OF wf] by blast
  show ?thesis
  proof (cases "appliedCount us + 1 = maxHistorySize us")
    case True
    then have full: "numCommands us1 + 1 = maxHistorySize us1" using n1 f1 by simp
    obtain us2 where e: "evictOldest us1 = Inr us2" and wf2: "wellFormed us2"
      and eq2: "appliedCount us2 = numCommands us2" and n2: "numCommands us2 = numCommands us1 - 1"
      and f2: "am us2 = am us1" "undoCursorHead us2 = (undoCursorHead us1 + 1) mod maxHistorySize us1"
        "undoCursorTail us2 = undoCursorTail us1" "maxHistorySize us2 = maxHistorySize us1"
      and r2: "retained us2 = tl (retained us1)"
      using evictOldest_full_result [OF wf1 eq1 full] by blast
    have room: "numCommands us2 + 1 < maxHistorySize us2" using n2 full f2 d(1) f1 by simp
    obtain us3 where p: "placeAndExecute us2 cmd = Inr us3" and wf3: "wellFormed us3"
      and eq3: "appliedCount us3 = numCommands us3" and n3: "numCommands us3 = numCommands us2 + 1"
      and f3: "am us3 = snd (Command_execute cmd (am us2))" "undoCursorHead us3 = undoCursorHead us2"
        "undoCursorTail us3 = (undoCursorTail us2 + 1) mod maxHistorySize us2"
        "maxHistorySize us3 = maxHistorySize us2"
        "history us3 = (history us2)[undoCursorTail us2 := Some (fst (Command_execute cmd (am us2)))]"
      and r3: "retained us3 = retained us2 @ [Some (fst (Command_execute cmd (am us2)))]"
      using placeAndExecute_result [OF wf2 eq2 room] by blast
    have res: "pushAndExecuteCommand us cmd = Inr us3"
      by (simp add: pushAndExecuteCommand_def bindE_def t e p)
    have slot: "history us3 ! undoCursorTail us = Some (fst (Command_execute cmd (am us)))"
      using f3(5) f2 f1 wellFormedD(4,6) [OF wf2] by simp
    have n: "numCommands us3 = appliedCount us" using n3 n2 n1 True d(1) by simp
    show ?thesis
      using res wf3 eq3 n slot True f1 f2 f3 r1 r2 r3 by (intro exI [of _ us3]) simp
  next
    case False
    then have room: "numCommands us1 + 1 < maxHistorySize us1" using n1 f1 d(9) by simp
    have e: "evictOldest us1 = Inr us1" by (rule evictOldest_not_full [OF wf1 eq1 room])
    obtain us3 where p: "placeAndExecute us1 cmd = Inr us3" and wf3: "wellFormed us3"
      and eq3: "appliedCount us3 = numCommands us3" and n3: "numCommands us3 = numCommands us1 + 1"
      and f3: "am us3 = snd (Command_execute cmd (am us1))" "undoCursorHead us3 = undoCursorHead us1"
        "undoCursorTail us3 = (undoCursorTail us1 + 1) mod maxHistorySize us1"
        "maxHistorySize us3 = maxHistorySize us1"
        "history us3 = (history us1)[undoCursorTail us1 := Some (fst (Command_execute cmd (am us1)))]"
      and r3: "retained us3 = retained us1 @ [Some (fst (Command_execute cmd (am us1)))]"
      using placeAndExecute_result [OF wf1 eq1 room] by blast
    have res: "pushAndExecuteCommand us cmd = Inr us3"
      by (simp add: pushAndExecuteCommand_def bindE_def t e p)
    have slot: "history us3 ! undoCursorTail us = Some (fst (Command_execute cmd (am us)))"
      using f3(5) f1 wellFormedD(4,6) [OF wf1] by simp
    show ?thesis
      using res wf3 eq3 n3 n1 slot False f1 f3 r1 r3 by (intro exI [of _ us3]) simp
  qed
qed

lemma wf_head_eq_tail: "wellFormed us \<Longrightarrow> (undoCursorHead us = undoCursorTail us) = (appliedCount us = 0)"
proof
  assume wf: "wellFormed us" and "undoCursorHead us = undoCursorTail us"
  then show "appliedCount us = 0" using wellFormedD(2) [OF wf] by (simp add: appliedCount_def)
next
  assume wf: "wellFormed us" and "appliedCount us = 0"
  then show "undoCursorHead us = undoCursorTail us"
    using wf_tail [OF wf] slotIndex_0 [of us] wellFormedD(5) [OF wf] by simp
qed

lemma undo_nothing: "wellFormed us \<Longrightarrow> appliedCount us = 0 \<Longrightarrow> undo us = Inr us"
  by (simp add: undo_def wf_head_eq_tail)

lemma undo_step:
  assumes wf: "wellFormed us" and pos: "0 < appliedCount us"
  shows "\<exists>cmd us'. retained us ! (appliedCount us - 1) = Some cmd \<and>
           undo us = Inr us' \<and> wellFormed us' \<and>
           am us' = Command_undo cmd (am us) \<and>
           history us' = history us \<and> numCommands us' = numCommands us \<and>
           undoCursorHead us' = undoCursorHead us \<and> maxHistorySize us' = maxHistorySize us \<and>
           undoCursorTail us' = slotIndex us (appliedCount us - 1) \<and>
           appliedCount us' = appliedCount us - 1 \<and> retained us' = retained us"
proof -
  note d = wellFormedD [OF wf]
  let ?c = "maxHistorySize us" and ?h = "undoCursorHead us" and ?k = "appliedCount us"
  let ?t = "undoCursorTail us"
  let ?o = "slotIndex us (?k - 1)"
  have ne: "?h \<noteq> ?t" using wf_head_eq_tail [OF wf] pos by simp
  have t: "?t = (?o + 1) mod ?c"
    using wf_tail [OF wf] pos ring_Suc [of ?h "?k - 1" ?c] by (simp add: slotIndex_def)
  have oc: "?o < ?c" using d(2) by (rule slotIndex_lt)
  have off: "(if ?t = 0 then u32_sub ?c 1 else u32_sub ?t 1) = ?o"
  proof (cases "?t = 0")
    case True
    then have "?o + 1 = ?c" using t oc d(2)
      by (metis Suc_eq_plus1 Suc_lessI mod_less less_numeral_extra(3) add_is_0 zero_neq_one)
    moreover have "u32_sub ?c 1 = ?c - 1" using d(1,3) by (intro u32_sub_small) simp_all
    ultimately show ?thesis using True by simp
  next
    case False
    have "?o + 1 < ?c"
    proof (rule ccontr)
      assume "\<not> ?o + 1 < ?c"
      then have "?o + 1 = ?c" using oc by simp
      then show False using t False by simp
    qed
    then have "?t = ?o + 1" using t by simp
    moreover have "u32_sub ?t 1 = ?t - 1" using False d(3,6) by (intro u32_sub_small) simp_all
    ultimately show ?thesis using False by simp
  qed
  have k1: "?k - 1 < numCommands us" using pos d(8) by simp
  obtain cmd where cmd: "history us ! ?o = Some cmd" using wf_live [OF wf k1] by blast
  define us' where "us' = us\<lparr>am := Command_undo cmd (am us), undoCursorTail := ?o\<rparr>"
  have f [simp]: "history us' = history us" "undoCursorHead us' = ?h" "numCommands us' = numCommands us"
    "maxHistorySize us' = ?c" "undoCursorTail us' = ?o" "am us' = Command_undo cmd (am us)"
    by (simp_all add: us'_def)
  have res: "undo us = Inr us'"
    using ne off cmd oc d(4) by (simp add: undo_def Let_def liveCommand_def bindE_def us'_def)
  have si: "\<And>j. slotIndex us' j = slotIndex us j" by (simp add: slotIndex_def)
  have ac: "appliedCount us' = ?k - 1"
    by (rule appliedCount_eqI) (use d in \<open>simp_all add: slotIndex_def\<close>)
  have wf': "wellFormed us'"
    unfolding wellFormed_def using d ac oc k1 by (simp add: si)
  have ret: "retained us' = retained us" by (simp add: retained_def si)
  have r: "retained us ! (?k - 1) = Some cmd" using k1 cmd by (simp add: retained_def)
  show ?thesis using r res wf' ac ret by (intro exI [of _ cmd] exI [of _ us']) simp
qed

lemma redo_nothing:
  assumes wf: "wellFormed us" and eq: "appliedCount us = numCommands us"
  shows "redo us = Inr us"
proof -
  note d = wellFormedD [OF wf]
  have "u32_add (undoCursorHead us) (numCommands us) = undoCursorHead us + numCommands us"
    using d(3,5,7) by (intro u32_add_small) simp
  then show ?thesis
    using wf_tail [OF wf] eq d(2) by (simp add: redo_def u32_mod_def bindE_def slotIndex_def)
qed

lemma redo_step:
  assumes wf: "wellFormed us" and lt: "appliedCount us < numCommands us"
  shows "\<exists>cmd us'. retained us ! appliedCount us = Some cmd \<and>
           redo us = Inr us' \<and> wellFormed us' \<and>
           am us' = snd (Command_execute cmd (am us)) \<and>
           history us' = (history us)[undoCursorTail us := Some (fst (Command_execute cmd (am us)))] \<and>
           numCommands us' = numCommands us \<and>
           undoCursorHead us' = undoCursorHead us \<and> maxHistorySize us' = maxHistorySize us \<and>
           undoCursorTail us' = (undoCursorTail us + 1) mod maxHistorySize us \<and>
           appliedCount us' = appliedCount us + 1 \<and>
           retained us' = (retained us)[appliedCount us := Some (fst (Command_execute cmd (am us)))]"
proof -
  note d = wellFormedD [OF wf]
  let ?c = "maxHistorySize us" and ?h = "undoCursorHead us" and ?k = "appliedCount us"
  let ?t = "undoCursorTail us" and ?n = "numCommands us"
  have t: "?t = slotIndex us ?k" by (rule wf_tail [OF wf])
  have sum: "u32_add ?h ?n = ?h + ?n" using d(3,5,7) by (intro u32_add_small) simp
  have ne: "(?h + ?n) mod ?c \<noteq> ?t"
    using slotIndex_inj [of ?n us ?k] d(7,9) lt t by (auto simp: slotIndex_def)
  obtain cmd where cmd: "history us ! ?t = Some cmd" using wf_live [OF wf lt] t by auto
  let ?cmd' = "fst (Command_execute cmd (am us))"
  define us' where "us' = us\<lparr>am := snd (Command_execute cmd (am us)),
      history := (history us)[?t := Some ?cmd'], undoCursorTail := (?t + 1) mod ?c\<rparr>"
  have f [simp]: "history us' = (history us)[?t := Some ?cmd']" "undoCursorHead us' = ?h"
    "numCommands us' = ?n" "maxHistorySize us' = ?c" "undoCursorTail us' = (?t + 1) mod ?c"
    "am us' = snd (Command_execute cmd (am us))"
    by (simp_all add: us'_def)
  have t1: "u32_add ?t 1 = ?t + 1" using d(3,6) by (intro u32_add_small) simp
  have res: "redo us = Inr us'"
    using sum ne cmd d(2,4,6) t1
    by (simp add: redo_def u32_mod_def bindE_def executeSlot_live Let_def us'_def)
  have si: "\<And>j. slotIndex us' j = slotIndex us j" by (simp add: slotIndex_def)
  have ac: "appliedCount us' = ?k + 1"
  proof (rule appliedCount_eqI)
    show "undoCursorTail us' = (undoCursorHead us' + (?k + 1)) mod maxHistorySize us'"
      using t ring_Suc [of ?h ?k ?c] by (simp add: slotIndex_def)
  qed (use d lt in simp_all)
  have slot: "\<And>j. j < ?c \<Longrightarrow>
                history us' ! slotIndex us j = (if j = ?k then Some ?cmd' else history us ! slotIndex us j)"
  proof -
    fix j assume j: "j < ?c"
    show "history us' ! slotIndex us j = (if j = ?k then Some ?cmd' else history us ! slotIndex us j)"
    proof (cases "j = ?k")
      case True
      then show ?thesis using t d(4,6) by simp
    next
      case False
      then have "slotIndex us j \<noteq> ?t" using slotIndex_inj [of j us ?k] j d(9) t by auto
      then show ?thesis using False by simp
    qed
  qed
  have live: "\<forall>j < maxHistorySize us'. (history us' ! slotIndex us' j \<noteq> None) = (j < numCommands us')"
  proof (intro allI impI)
    fix j assume j: "j < maxHistorySize us'"
    then have jc: "j < ?c" by simp
    show "(history us' ! slotIndex us' j \<noteq> None) = (j < numCommands us')"
      unfolding si using slot [OF jc] d(10) [OF jc] lt by (cases "j = ?k") auto
  qed
  have wf': "wellFormed us'"
    unfolding wellFormed_def using d live ac lt by simp
  have ret: "retained us' = (retained us)[?k := Some ?cmd']"
  proof (rule nth_equalityI)
    show "length (retained us') = length ((retained us)[?k := Some ?cmd'])" by (simp add: retained_def)
  next
    fix i assume "i < length (retained us')"
    then have i: "i < ?n" by (simp add: retained_def)
    then have ic: "i < ?c" using d(7) by simp
    show "retained us' ! i = (retained us)[?k := Some ?cmd'] ! i"
      using i slot [OF ic] lt by (cases "i = ?k") (simp_all add: retained_def si)
  qed
  have r: "retained us ! ?k = Some cmd" using lt cmd t by (simp add: retained_def)
  show ?thesis using r res wf' ac ret by (intro exI [of _ cmd] exI [of _ us']) simp
qed

subsection \<open>Initial log, preservation, and the retained list\<close>

lemma unat_of_positive_int:
  assumes "0 \<le> sint (w :: 32 word)"
  shows "unat w = nat (sint w)"
proof -
  have "sint w < 2 ^ 31" using sint_lt [of w] by simp
  then have "sint w < 2 ^ 32" by simp
  then have "take_bit 32 (sint w) = sint w" using assms by (simp add: take_bit_int_eq_self)
  then have "uint w = sint w" using uint_sint [of w] by simp
  then show ?thesis by (simp add: unat_eq_nat_uint del: nat_uint_eq)
qed

lemma init_wellFormed:
  assumes "init a maxHistory = Inr us"
  shows "wellFormed us \<and> numCommands us = 0 \<and> appliedCount us = 0 \<and> am us = a \<and>
         maxHistorySize us = nat (sint maxHistory) \<and> retained us = []"
proof -
  have pos: "1 < sint maxHistory" using assms by (simp add: init_def split: if_splits)
  have c: "unat maxHistory = nat (sint maxHistory)" using pos by (intro unat_of_positive_int) simp
  have lt: "sint maxHistory < 2 ^ 31" using sint_lt [of maxHistory] by simp
  have us: "us = \<lparr>am = a, history = replicate (nat (sint maxHistory)) None, numCommands = 0,
             undoCursorTail = 0, undoCursorHead = 0, maxHistorySize = nat (sint maxHistory)\<rparr>"
    using assms pos c by (simp add: init_def)
  have "nat (sint maxHistory) < 2 ^ 31" using lt pos by (simp add: nat_less_iff)
  then show ?thesis
    using pos unfolding us wellFormed_def appliedCount_def slotIndex_def retained_def by simp
qed

lemma wellFormed_push:
  "wellFormed us \<Longrightarrow> pushAndExecuteCommand us c = Inr us' \<Longrightarrow> wellFormed us'"
  using pushAndExecuteCommand_result [of us c] by auto

lemma wellFormed_undo: "wellFormed us \<Longrightarrow> undo us = Inr us' \<Longrightarrow> wellFormed us'"
  using undo_nothing [of us] undo_step [of us] by (cases "appliedCount us = 0") auto

lemma wellFormed_am: "wellFormed (us\<lparr>am := b\<rparr>) = wellFormed us"
  by (simp add: wellFormed_def appliedCount_def slotIndex_def)

lemma appliedCount_am: "appliedCount (us\<lparr>am := b\<rparr>) = appliedCount us"
  by (simp add: appliedCount_def)

lemma slotIndex_am: "slotIndex (us\<lparr>am := b\<rparr>) j = slotIndex us j"
  by (simp add: slotIndex_def)

lemma retained_nth: "j < numCommands us \<Longrightarrow> retained us ! j = history us ! slotIndex us j"
  by (simp add: retained_def)

lemma retained_last:
  assumes "retained us = xs @ [x]" and "appliedCount us = numCommands us"
  shows "0 < appliedCount us \<and> retained us ! (appliedCount us - 1) = x"
proof -
  have "length (retained us) = numCommands us" by (simp add: retained_def)
  then have n: "numCommands us = length xs + 1" using assms(1) by simp
  then have "retained us ! (numCommands us - 1) = (xs @ [x]) ! length xs" using assms(1) by simp
  then show ?thesis using n assms(2) by simp
qed

lemma length_retained: "length (retained us) = numCommands us"
  by (simp add: retained_def)

lemma count_window:
  "k \<le> n \<Longrightarrow> n \<le> c \<Longrightarrow> length (filter (\<lambda>j. k \<le> j \<and> j < n) [0..<c]) = n - (k::nat)"
proof -
  assume a: "k \<le> n" "n \<le> c"
  have "{i. i < length [0..<c] \<and> (k \<le> [0..<c] ! i \<and> [0..<c] ! i < n)} = {k..<n}"
    using a by auto
  then show ?thesis by (simp add: length_filter_conv_card)
qed

subsection \<open>Bookkeeping of the three operations\<close>

lemma push_bookkeeping:
  assumes wf: "wellFormed us"
  shows "\<exists>u. pushAndExecuteCommand us cmd = Inr u \<and>
              bookkeeping u =
                (if appliedCount us + 1 = maxHistorySize us
                 then ((undoCursorHead us + 1) mod maxHistorySize us,
                       (undoCursorTail us + 1) mod maxHistorySize us, appliedCount us)
                 else (undoCursorHead us, (undoCursorTail us + 1) mod maxHistorySize us,
                       appliedCount us + 1))"
  using pushAndExecuteCommand_result [OF wf, of cmd]
  by (auto simp: bookkeeping_def split: if_splits)

lemma undo_bookkeeping:
  assumes wf: "wellFormed us"
  shows "\<exists>u. undo us = Inr u \<and>
              bookkeeping u =
                (if appliedCount us = 0 then bookkeeping us
                 else (undoCursorHead us, slotIndex us (appliedCount us - 1), numCommands us))"
proof (cases "appliedCount us = 0")
  case True
  then show ?thesis using undo_nothing [OF wf] by simp
next
  case False
  then show ?thesis using undo_step [OF wf] by (auto simp: bookkeeping_def)
qed

lemma redo_bookkeeping:
  assumes wf: "wellFormed us"
  shows "\<exists>u. redo us = Inr u \<and>
              bookkeeping u =
                (if appliedCount us = numCommands us then bookkeeping us
                 else (undoCursorHead us, (undoCursorTail us + 1) mod maxHistorySize us,
                       numCommands us))"
proof (cases "appliedCount us = numCommands us")
  case True
  then show ?thesis using redo_nothing [OF wf] by simp
next
  case False
  then have "appliedCount us < numCommands us" using wellFormedD(8) [OF wf] by simp
  then show ?thesis using redo_step [OF wf] False by (auto simp: bookkeeping_def)
qed

lemma bookkeeping_independent_of_store:
  assumes wf: "wellFormed us"
  shows "(\<exists>u v. pushAndExecuteCommand us cmd = Inr u \<and>
                pushAndExecuteCommand (us\<lparr>am := b\<rparr>) cmd = Inr v \<and> bookkeeping u = bookkeeping v) \<and>
         (\<exists>u v. undo us = Inr u \<and> undo (us\<lparr>am := b\<rparr>) = Inr v \<and> bookkeeping u = bookkeeping v) \<and>
         (\<exists>u v. redo us = Inr u \<and> redo (us\<lparr>am := b\<rparr>) = Inr v \<and> bookkeeping u = bookkeeping v)"
proof -
  have wfb: "wellFormed (us\<lparr>am := b\<rparr>)" using wf by (simp add: wellFormed_am)
  have bk: "bookkeeping (us\<lparr>am := b\<rparr>) = bookkeeping us" by (simp add: bookkeeping_def)
  show ?thesis
    using push_bookkeeping [OF wf, of cmd] push_bookkeeping [OF wfb, of cmd]
      undo_bookkeeping [OF wf] undo_bookkeeping [OF wfb]
      redo_bookkeeping [OF wf] redo_bookkeeping [OF wfb]
    by (fastforce simp: appliedCount_am slotIndex_am bk)
qed

lemma wf_full_iff:
  assumes wf: "wellFormed us"
  shows "((undoCursorTail us + 1) mod maxHistorySize us = undoCursorHead us) =
         (appliedCount us + 1 = maxHistorySize us)"
proof -
  note d = wellFormedD [OF wf]
  let ?c = "maxHistorySize us" and ?h = "undoCursorHead us" and ?k = "appliedCount us"
  have t: "(undoCursorTail us + 1) mod ?c = (?h + (?k + 1)) mod ?c"
    using wf_tail [OF wf] ring_Suc [of ?h ?k ?c] by (simp add: slotIndex_def)
  show ?thesis
  proof (cases "?k + 1 = ?c")
    case True
    then show ?thesis using t d(5) by simp
  next
    case False
    then have lt: "?k + 1 < ?c" using d(9) by simp
    have "(?h + (?k + 1)) mod ?c \<noteq> ?h"
    proof
      assume "(?h + (?k + 1)) mod ?c = ?h"
      then have "(?h + (?k + 1)) mod ?c = (?h + 0) mod ?c" using d(5) by simp
      then have "?k + 1 = 0" using lt d(2) by (intro ring_inj [of "?k + 1" ?c 0 ?h]) simp_all
      then show False by simp
    qed
    then show ?thesis using t False by simp
  qed
qed

lemma wf_nothing_to_redo_iff:
  assumes wf: "wellFormed us"
  shows "(undoCursorTail us = (undoCursorHead us + numCommands us) mod maxHistorySize us) =
         (appliedCount us = numCommands us)"
proof
  assume "undoCursorTail us = (undoCursorHead us + numCommands us) mod maxHistorySize us"
  then show "appliedCount us = numCommands us"
    using wellFormedD(5,7) [OF wf] by (intro appliedCount_eqI) simp_all
next
  assume "appliedCount us = numCommands us"
  then show "undoCursorTail us = (undoCursorHead us + numCommands us) mod maxHistorySize us"
    using wf_tail [OF wf] by (simp add: slotIndex_def)
qed

lemma wf_previous_slot:
  assumes wf: "wellFormed us" and pos: "0 < appliedCount us"
  shows "slotIndex us (appliedCount us - 1) =
           (if undoCursorTail us = 0 then maxHistorySize us - 1 else undoCursorTail us - 1)"
proof -
  note d = wellFormedD [OF wf]
  let ?c = "maxHistorySize us" and ?o = "slotIndex us (appliedCount us - 1)"
  have t: "undoCursorTail us = (?o + 1) mod ?c"
    using wf_tail [OF wf] pos ring_Suc [of "undoCursorHead us" "appliedCount us - 1" ?c]
    by (simp add: slotIndex_def)
  have oc: "?o < ?c" using d(2) by (rule slotIndex_lt)
  show ?thesis
  proof (cases "?o + 1 = ?c")
    case True
    then have "undoCursorTail us = 0" using t by simp
    then show ?thesis using True by simp
  next
    case False
    then have "?o + 1 < ?c" using oc by simp
    then have "undoCursorTail us = ?o + 1" using t by simp
    then show ?thesis by simp
  qed
qed

lemma undo_effect:
  assumes wf: "wellFormed us"
  shows "\<exists>v. undo us = Inr v \<and>
           bookkeeping v =
             (undoCursorHead us,
              (if undoCursorHead us = undoCursorTail us then undoCursorTail us
               else if undoCursorTail us = 0 then maxHistorySize us - 1
               else undoCursorTail us - 1),
              numCommands us) \<and>
           (if undoCursorHead us = undoCursorTail us then am v = am us
            else \<exists>c. history us ! (if undoCursorTail us = 0 then maxHistorySize us - 1
                                      else undoCursorTail us - 1) = Some c \<and>
                     am v = Command_undo c (am us))"
proof (cases "appliedCount us = 0")
  case True
  then have "undoCursorHead us = undoCursorTail us" using wf_head_eq_tail [OF wf] by simp
  then show ?thesis using undo_nothing [OF wf True] by (simp add: bookkeeping_def)
next
  case False
  then have pos: "0 < appliedCount us" by simp
  have ne: "undoCursorHead us \<noteq> undoCursorTail us" using wf_head_eq_tail [OF wf] False by simp
  have lt: "appliedCount us - 1 < numCommands us" using pos wellFormedD(8) [OF wf] by simp
  obtain cmd v where r: "retained us ! (appliedCount us - 1) = Some cmd" and u: "undo us = Inr v"
    and a: "am v = Command_undo cmd (am us)"
    and f: "numCommands v = numCommands us" "undoCursorHead v = undoCursorHead us"
      "undoCursorTail v = slotIndex us (appliedCount us - 1)"
    using undo_step [OF wf pos] by blast
  have h: "history us ! slotIndex us (appliedCount us - 1) = Some cmd"
    using r retained_nth [OF lt] by simp
  show ?thesis
    using u a f h ne unfolding wf_previous_slot [OF wf pos]
    by (intro exI [of _ v]) (simp add: bookkeeping_def)
qed

lemma redo_effect:
  assumes wf: "wellFormed us"
  shows "\<exists>v. redo us = Inr v \<and>
           bookkeeping v =
             (undoCursorHead us,
              (if undoCursorTail us = (undoCursorHead us + numCommands us) mod maxHistorySize us
               then undoCursorTail us
               else (undoCursorTail us + 1) mod maxHistorySize us),
              numCommands us) \<and>
           (if undoCursorTail us = (undoCursorHead us + numCommands us) mod maxHistorySize us
            then am v = am us
            else \<exists>c. history us ! undoCursorTail us = Some c \<and>
                     am v = snd (Command_execute c (am us)))"
proof (cases "appliedCount us = numCommands us")
  case True
  then have "undoCursorTail us = (undoCursorHead us + numCommands us) mod maxHistorySize us"
    using wf_nothing_to_redo_iff [OF wf] by simp
  then show ?thesis using redo_nothing [OF wf True] by (simp add: bookkeeping_def)
next
  case False
  then have lt: "appliedCount us < numCommands us" using wellFormedD(8) [OF wf] by simp
  have ne: "undoCursorTail us \<noteq> (undoCursorHead us + numCommands us) mod maxHistorySize us"
    using wf_nothing_to_redo_iff [OF wf] False by simp
  obtain cmd v where r: "retained us ! appliedCount us = Some cmd" and u: "redo us = Inr v"
    and a: "am v = snd (Command_execute cmd (am us))"
    and f: "numCommands v = numCommands us" "undoCursorHead v = undoCursorHead us"
      "undoCursorTail v = (undoCursorTail us + 1) mod maxHistorySize us"
    using redo_step [OF wf lt] by blast
  have h: "history us ! undoCursorTail us = Some cmd"
    using r retained_nth [OF lt] wf_tail [OF wf] by simp
  show ?thesis
    using u a f h ne by (intro exI [of _ v]) (simp add: bookkeeping_def)
qed

lemma push_effect:
  assumes wf: "wellFormed us"
  shows "\<exists>v. pushAndExecuteCommand us cmd = Inr v \<and>
           bookkeeping v =
             (if (undoCursorTail us + 1) mod maxHistorySize us = undoCursorHead us
              then ((undoCursorHead us + 1) mod maxHistorySize us,
                    (undoCursorTail us + 1) mod maxHistorySize us, appliedCount us)
              else (undoCursorHead us, (undoCursorTail us + 1) mod maxHistorySize us,
                    appliedCount us + 1)) \<and>
           am v = snd (Command_execute cmd (am us)) \<and>
           history v ! undoCursorTail us = Some (fst (Command_execute cmd (am us)))"
  using pushAndExecuteCommand_result [OF wf, of cmd] unfolding wf_full_iff [OF wf]
  by (auto simp: bookkeeping_def split: if_splits)

lemma undo_redo_roundtrip:
  assumes wf: "wellFormed u" and pos: "0 < appliedCount u"
    and cmd: "retained u ! (appliedCount u - 1) = Some cmd"
    and same: "\<And>x. fst (Command_execute cmd x) = cmd"
  shows "\<exists>u2 u3. undo u = Inr u2 \<and> redo u2 = Inr u3 \<and>
           am u2 = Command_undo cmd (am u) \<and>
           am u3 = snd (Command_execute cmd (Command_undo cmd (am u))) \<and>
           history u3 = history u \<and> bookkeeping u3 = bookkeeping u \<and>
           maxHistorySize u3 = maxHistorySize u \<and> wellFormed u3"
proof -
  note d = wellFormedD [OF wf]
  let ?k = "appliedCount u"
  obtain c2 u2 where c2: "retained u ! (?k - 1) = Some c2" and un: "undo u = Inr u2"
    and wf2: "wellFormed u2" and a2: "am u2 = Command_undo c2 (am u)"
    and f2: "history u2 = history u" "numCommands u2 = numCommands u"
      "undoCursorHead u2 = undoCursorHead u" "maxHistorySize u2 = maxHistorySize u"
      "undoCursorTail u2 = slotIndex u (?k - 1)"
    and k2: "appliedCount u2 = ?k - 1" and r2: "retained u2 = retained u"
    using undo_step [OF wf pos] by blast
  have c2cmd: "c2 = cmd" using c2 cmd by simp
  have lt: "appliedCount u2 < numCommands u2" using k2 f2 pos d(8) by simp
  obtain c3 u3 where c3: "retained u2 ! appliedCount u2 = Some c3" and re: "redo u2 = Inr u3"
    and wf3: "wellFormed u3" and a3: "am u3 = snd (Command_execute c3 (am u2))"
    and f3: "history u3 = (history u2)[undoCursorTail u2 := Some (fst (Command_execute c3 (am u2)))]"
      "numCommands u3 = numCommands u2" "undoCursorHead u3 = undoCursorHead u2"
      "maxHistorySize u3 = maxHistorySize u2"
    and k3: "appliedCount u3 = appliedCount u2 + 1"
    using redo_step [OF wf2 lt] by blast
  have c3cmd: "c3 = cmd" using c3 r2 k2 cmd by simp
  have slot: "history u ! slotIndex u (?k - 1) = Some cmd"
    using cmd pos d(8) retained_nth [of "?k - 1" u] by simp
  have h3: "history u3 = history u"
    unfolding f3(1) f2 c3cmd same using slot by (simp add: list_update_same_conv slotIndex_lt d)
  have k: "appliedCount u3 = ?k" using k3 k2 pos by simp
  have "undoCursorTail u3 = slotIndex u3 (appliedCount u3)" by (rule wf_tail [OF wf3])
  also have "\<dots> = slotIndex u ?k" using k f3 f2 by (simp add: slotIndex_def)
  also have "\<dots> = undoCursorTail u" using wf_tail [OF wf] by simp
  finally have t3: "undoCursorTail u3 = undoCursorTail u" .
  have bk: "bookkeeping u3 = bookkeeping u" using t3 f3 f2 by (simp add: bookkeeping_def)
  show ?thesis
    using un re a2 a3 c2cmd c3cmd h3 bk f3 f2 wf3 by (intro exI [of _ u2] exI [of _ u3]) simp
qed

subsection \<open>Recording many commands, undoing many times\<close>

lemma forgetSnapshot_execute: "forgetSnapshot (fst (Command_execute c a)) = forgetSnapshot c"
  by (cases c) (simp_all split: prod.splits)

lemma push_recorded:
  assumes wf: "wellFormed us" and eq: "appliedCount us = numCommands us"
  shows "\<exists>us'. pushAndExecuteCommand us c = Inr us' \<and> wellFormed us' \<and>
           appliedCount us' = numCommands us' \<and> maxHistorySize us' = maxHistorySize us \<and>
           recorded us' =
             (if numCommands us + 1 = maxHistorySize us then tl (recorded us) else recorded us)
               @ [Some (forgetSnapshot c)]"
proof -
  have tk: "take (appliedCount us) (retained us) = retained us" using eq by (simp add: length_retained)
  obtain us' where p: "pushAndExecuteCommand us c = Inr us'" and wf': "wellFormed us'"
    and eq': "appliedCount us' = numCommands us'" and c': "maxHistorySize us' = maxHistorySize us"
    and r: "retained us' =
              (if appliedCount us + 1 = maxHistorySize us then tl (retained us) else retained us)
                @ [Some (fst (Command_execute c (am us)))]"
    using pushAndExecuteCommand_result [OF wf, of c] unfolding tk by (auto split: if_splits)
  have "recorded us' =
          (if numCommands us + 1 = maxHistorySize us then tl (recorded us) else recorded us)
            @ [Some (forgetSnapshot c)]"
    unfolding recorded_def r using eq by (simp add: forgetSnapshot_execute map_tl)
  then show ?thesis using p wf' eq' c' by (intro exI [of _ us']) simp
qed

lemma pushAll_recorded:
  assumes "wellFormed us" and "appliedCount us = numCommands us"
  shows "\<exists>us'. pushAll us cs = Inr us' \<and> wellFormed us' \<and>
           appliedCount us' = numCommands us' \<and> maxHistorySize us' = maxHistorySize us \<and>
           recorded us' =
             drop (length (recorded us) + length cs - (maxHistorySize us - 1))
               (recorded us @ map (\<lambda>c. Some (forgetSnapshot c)) cs)"
  using assms
proof (induction cs arbitrary: us)
  case Nil
  have "length (recorded us) \<le> maxHistorySize us - 1"
    using wellFormedD(7) [OF Nil(1)] by (simp add: recorded_def length_retained)
  then show ?case using Nil by simp
next
  case (Cons c cs)
  let ?R = "recorded us" and ?M = "map (\<lambda>c. Some (forgetSnapshot c)) cs" and ?x = "Some (forgetSnapshot c)"
  let ?m = "maxHistorySize us"
  have lenR: "length ?R = numCommands us" by (simp add: recorded_def length_retained)
  obtain us1 where p: "pushAndExecuteCommand us c = Inr us1" and wf1: "wellFormed us1"
    and eq1: "appliedCount us1 = numCommands us1" and c1: "maxHistorySize us1 = ?m"
    and r1: "recorded us1 = (if numCommands us + 1 = ?m then tl ?R else ?R) @ [?x]"
    using push_recorded [OF Cons(2,3), of c] by blast
  obtain us' where pa: "pushAll us1 cs = Inr us'" and wf': "wellFormed us'"
    and eq': "appliedCount us' = numCommands us'" and c': "maxHistorySize us' = maxHistorySize us1"
    and r': "recorded us' =
               drop (length (recorded us1) + length cs - (maxHistorySize us1 - 1)) (recorded us1 @ ?M)"
    using Cons(1) [OF wf1 eq1] by blast
  have run: "pushAll us (c # cs) = Inr us'" by (simp add: p pa bindE_def)
  have "drop (length (recorded us1) + length cs - (?m - 1)) (recorded us1 @ ?M) =
        drop (length ?R + length (c # cs) - (?m - 1)) (?R @ map (\<lambda>c. Some (forgetSnapshot c)) (c # cs))"
  proof (cases "numCommands us + 1 = ?m")
    case False
    then show ?thesis using r1 by simp
  next
    case True
    then have "0 < length ?R" using wellFormedD(1) [OF Cons(2)] lenR by simp
    then obtain r R' where R: "?R = r # R'" by (cases ?R) auto
    have l: "length R' + 1 = ?m - 1" using R lenR True by simp
    have a: "length (recorded us1) + length cs - (?m - 1) = length cs"
      using r1 True R l by simp
    have b: "length ?R + length (c # cs) - (?m - 1) = Suc (length cs)"
      using R l by simp
    show ?thesis unfolding a b using r1 True R by simp
  qed
  then have "recorded us' =
        drop (length ?R + length (c # cs) - (?m - 1)) (?R @ map (\<lambda>c. Some (forgetSnapshot c)) (c # cs))"
    using r' c1 by simp
  then show ?case using run wf' eq' c' c1 by (intro exI [of _ us']) simp
qed

lemma undoTimes_result:
  assumes "wellFormed us"
  shows "\<exists>us'. undoTimes k us = Inr us' \<and> wellFormed us' \<and> retained us' = retained us \<and>
           undoCursorHead us' = undoCursorHead us \<and> numCommands us' = numCommands us \<and>
           maxHistorySize us' = maxHistorySize us \<and> appliedCount us' = appliedCount us - k"
  using assms
proof (induction k arbitrary: us)
  case 0
  then show ?case by simp
next
  case (Suc k)
  show ?case
  proof (cases "appliedCount us = 0")
    case True
    have u: "undo us = Inr us" by (rule undo_nothing [OF Suc(2) True])
    show ?thesis using Suc(1) [OF Suc(2)] True by (simp add: u bindE_def)
  next
    case False
    then obtain us1 where u: "undo us = Inr us1" and wf1: "wellFormed us1"
      and f: "retained us1 = retained us" "undoCursorHead us1 = undoCursorHead us"
        "numCommands us1 = numCommands us" "maxHistorySize us1 = maxHistorySize us"
        "appliedCount us1 = appliedCount us - 1"
      using undo_step [OF Suc(2)] by auto
    show ?thesis using Suc(1) [OF wf1] f by (simp add: u bindE_def)
  qed
qed

lemma next_undo_reverses_retained:
  assumes wf: "wellFormed us"
  shows "(appliedCount us = 0 \<and> undo us = Inr us) \<or>
         (\<exists>cmd us'. appliedCount us - 1 < numCommands us \<and>
            retained us ! (appliedCount us - 1) = Some cmd \<and>
            undo us = Inr us' \<and> am us' = Command_undo cmd (am us))"
proof (cases "appliedCount us = 0")
  case True
  then show ?thesis using undo_nothing [OF wf] by simp
next
  case False
  then have "appliedCount us - 1 < numCommands us" using wellFormedD(8) [OF wf] by simp
  then show ?thesis using undo_step [OF wf] False by auto
qed

subsection \<open>The two command classes on the store\<close>

lemma Modify_execute_objects:
  "objects (ModifyU8Vec4Command_execute objId oldVec newVec pt a) =
     (case objects a objId of
        None \<Rightarrow> objects a
      | Some obj \<Rightarrow> (objects a)(objId \<mapsto> withSelectedProp pt newVec obj))"
  by (cases pt)
     (simp_all add: ModifyU8Vec4Command_execute_def getMutableObject_def writeObject_def
        updateObjectState_def withSelectedProp_def split: option.splits)

lemma Modify_undo_objects:
  "objects (ModifyU8Vec4Command_undo objId oldVec newVec pt a) =
     (case objects a objId of
        None \<Rightarrow> objects a
      | Some obj \<Rightarrow> (objects a)(objId \<mapsto> withSelectedProp pt oldVec obj))"
  by (cases pt)
     (simp_all add: ModifyU8Vec4Command_undo_def getMutableObject_def writeObject_def
        updateObjectState_def withSelectedProp_def split: option.splits)

lemma Modify_breadthFirst:
  "breadthFirst (ModifyU8Vec4Command_execute objId oldVec newVec pt a) = breadthFirst a"
  "breadthFirst (ModifyU8Vec4Command_undo objId oldVec newVec pt a) = breadthFirst a"
  by (cases pt;
      simp add: ModifyU8Vec4Command_execute_def ModifyU8Vec4Command_undo_def getMutableObject_def
        writeObject_def updateObjectState_def split: option.splits)+

lemma withSelectedProp_twice:
  "withSelectedProp pt v (withSelectedProp pt w obj) = withSelectedProp pt v obj"
  by (cases pt) (simp_all add: withSelectedProp_def)

lemma selectedProp_with: "selectedProp pt (withSelectedProp pt v obj) = v"
  by (cases pt) (simp_all add: withSelectedProp_def selectedProp_def)

lemma Modify_execute_undo_execute:
  "objects (ModifyU8Vec4Command_execute objId oldVec newVec pt
      (ModifyU8Vec4Command_undo objId oldVec newVec pt
        (ModifyU8Vec4Command_execute objId oldVec newVec pt a))) =
   objects (ModifyU8Vec4Command_execute objId oldVec newVec pt a)"
  by (simp add: Modify_execute_objects Modify_undo_objects withSelectedProp_twice
        split: option.splits)

lemma Modify_execute_undo_twice:
  "objects (ModifyU8Vec4Command_execute objId oldVec newVec pt
      (ModifyU8Vec4Command_undo objId oldVec newVec pt
        (ModifyU8Vec4Command_execute objId oldVec newVec pt
          (ModifyU8Vec4Command_undo objId oldVec newVec pt a)))) =
   objects (ModifyU8Vec4Command_execute objId oldVec newVec pt
      (ModifyU8Vec4Command_undo objId oldVec newVec pt a))"
  by (simp add: Modify_execute_objects Modify_undo_objects withSelectedProp_twice
        split: option.splits)

lemma withSelectedProp_again:
  "withSelectedProp pt v (withSelectedProp pt v obj) = withSelectedProp pt v obj"
  by (cases pt) (simp_all add: withSelectedProp_def)

lemma undoChildren_loop_frame:
  "breadthFirst (undoChildren_loop pt oldProps ids a) = breadthFirst a \<and>
   stateUpdates (undoChildren_loop pt oldProps ids a) = stateUpdates a"
  by (induction ids arbitrary: a)
     (auto simp: getMutableObject_def writeObject_def split: option.splits U8Vec4PropType.splits)

lemma undoChildren_loop_objects:
  "objects (undoChildren_loop pt oldProps ids a) x =
     (case oldProps x of
        None \<Rightarrow> objects a x
      | Some v \<Rightarrow> if x \<in> set ids then map_option (withSelectedProp pt v) (objects a x)
                  else objects a x)"
proof (induction ids arbitrary: a)
  case Nil
  show ?case by (simp split: option.splits)
next
  case (Cons childId rest)
  show ?case
  proof (cases "objects a childId")
    case None
    then show ?thesis using Cons [of a]
      by (auto simp: getMutableObject_def split: option.splits)
  next
    case (Some childObj)
    show ?thesis
    proof (cases "oldProps childId")
      case None
      then show ?thesis using Some Cons [of a]
        by (auto simp: getMutableObject_def split: option.splits)
    next
      case v: (Some childColor)
      have w: "undoChildren_loop pt oldProps (childId # rest) a =
                 undoChildren_loop pt oldProps rest
                   (writeObject a childId (withSelectedProp pt childColor childObj))"
        using Some v by (cases pt) (simp_all add: getMutableObject_def withSelectedProp_def)
      show ?thesis
        unfolding w Cons
        using Some v
        by (auto simp: writeObject_def withSelectedProp_again split: option.splits)
    qed
  qed
qed

lemma applyToChildren_loop_frame_step:
  assumes child: "objects a childId = Some childObj"
    and ih: "case applyToChildren_loop pt objId rest (oldProps(childId \<mapsto> w)) (writeObject a childId newObj) of
      (oldProps', a') \<Rightarrow>
        stateUpdates a' = stateUpdates (writeObject a childId newObj) \<and>
        breadthFirst a' = breadthFirst (writeObject a childId newObj) \<and>
        (\<forall>x. (objects a' x = None) = (objects (writeObject a childId newObj) x = None)) \<and>
        (\<forall>x. objects (writeObject a childId newObj) x = None \<longrightarrow> oldProps' x = (oldProps(childId \<mapsto> w)) x)"
  shows "case applyToChildren_loop pt objId rest (oldProps(childId \<mapsto> w)) (writeObject a childId newObj) of
      (oldProps', a') \<Rightarrow>
        stateUpdates a' = stateUpdates a \<and> breadthFirst a' = breadthFirst a \<and>
        (\<forall>x. (objects a' x = None) = (objects a x = None)) \<and>
        (\<forall>x. objects a x = None \<longrightarrow> oldProps' x = oldProps x)"
proof -
  obtain op' a' where
    r: "applyToChildren_loop pt objId rest (oldProps(childId \<mapsto> w)) (writeObject a childId newObj) = (op', a')"
    by (cases "applyToChildren_loop pt objId rest (oldProps(childId \<mapsto> w)) (writeObject a childId newObj)")
  have w: "stateUpdates (writeObject a childId newObj) = stateUpdates a"
    "breadthFirst (writeObject a childId newObj) = breadthFirst a"
    "\<And>x. (objects (writeObject a childId newObj) x = None) = (objects a x = None)"
    using child by (simp_all add: writeObject_def)
  have o: "\<And>x. objects a x = None \<Longrightarrow> (oldProps(childId \<mapsto> w)) x = oldProps x"
    using child by auto
  from ih have i: "stateUpdates a' = stateUpdates a" "breadthFirst a' = breadthFirst a"
    "\<And>x. (objects a' x = None) = (objects a x = None)"
    "\<And>x. objects a x = None \<Longrightarrow> op' x = (oldProps(childId \<mapsto> w)) x"
    unfolding r w by simp_all
  show ?thesis unfolding r using i o by simp
qed

lemma applyToChildren_loop_frame:
  "(case applyToChildren_loop pt objId ids oldProps a of
      (oldProps', a') \<Rightarrow>
        stateUpdates a' = stateUpdates a \<and> breadthFirst a' = breadthFirst a \<and>
        (\<forall>x. (objects a' x = None) = (objects a x = None)) \<and>
        (\<forall>x. objects a x = None \<longrightarrow> oldProps' x = oldProps x))"
proof (induction ids arbitrary: oldProps a)
  case Nil
  show ?case by simp
next
  case (Cons childId rest)
  show ?case
  proof (cases "getMutableObject a childId")
    case None
    then show ?thesis using Cons [where oldProps = oldProps and a = a] by simp
  next
    case child: (Some childObj)
    then have c: "objects a childId = Some childObj" by (simp add: getMutableObject_def)
    show ?thesis
    proof (cases "getMutableObject a objId")
      case None
      then show ?thesis using child Cons [where oldProps = oldProps and a = a] by simp
    next
      case (Some obj)
      show ?thesis
      proof (cases pt)
        case FillColor
        show ?thesis
          using applyToChildren_loop_frame_step [OF c Cons] child Some FillColor by simp
      next
        case StrokeColor
        show ?thesis
          using applyToChildren_loop_frame_step [OF c Cons] child Some StrokeColor by simp
      qed
    qed
  qed
qed

lemma absent_child_execute:
  assumes "getMutableObject a childId = None"
  shows "case ApplyU8Vec4ToChildrenCommand_execute objId propType oldProps a of
           (oldProps', a') \<Rightarrow>
             objects a' childId = None \<and> oldProps' childId = oldProps childId \<and>
             filter ((=) childId) (stateUpdates a') = filter ((=) childId) (stateUpdates a)"
proof (cases "getMutableObject a objId")
  case None
  then show ?thesis using assms
    by (simp add: ApplyU8Vec4ToChildrenCommand_execute_def getMutableObject_def)
next
  case (Some obj)
  then have ne: "childId \<noteq> objId" using assms by auto
  obtain op' a' where r: "applyToChildren_loop propType objId (breadthFirst a objId) oldProps a = (op', a')"
    by (cases "applyToChildren_loop propType objId (breadthFirst a objId) oldProps a")
  have "stateUpdates a' = stateUpdates a" "objects a' childId = None" "op' childId = oldProps childId"
    using applyToChildren_loop_frame [where pt = propType and objId = objId and ids = "breadthFirst a objId" and oldProps = oldProps and a = a] assms
    unfolding r by (simp_all add: getMutableObject_def)
  then show ?thesis using Some ne
    by (simp add: ApplyU8Vec4ToChildrenCommand_execute_def r updateObjectState_def)
qed

lemma absent_child_undo:
  assumes "getMutableObject a childId = None"
  shows "objects (ApplyU8Vec4ToChildrenCommand_undo objId propType oldProps a) childId = None \<and>
         filter ((=) childId) (stateUpdates (ApplyU8Vec4ToChildrenCommand_undo objId propType oldProps a)) =
           filter ((=) childId) (stateUpdates a)"
proof (cases "getMutableObject a objId")
  case None
  then show ?thesis using assms
    by (simp add: ApplyU8Vec4ToChildrenCommand_undo_def getMutableObject_def)
next
  case (Some obj)
  then have ne: "childId \<noteq> objId" using assms by auto
  show ?thesis using Some ne assms
    by (simp add: ApplyU8Vec4ToChildrenCommand_undo_def updateObjectState_def
          undoChildren_loop_objects undoChildren_loop_frame getMutableObject_def split: option.splits)
qed

lemma applyToChildren_loop_Cons_cases:
  "applyToChildren_loop pt objId (childId # rest) oldProps a =
     applyToChildren_loop pt objId rest oldProps a \<or>
   (\<exists>w newObj. applyToChildren_loop pt objId (childId # rest) oldProps a =
      applyToChildren_loop pt objId rest (oldProps(childId \<mapsto> w)) (writeObject a childId newObj))"
proof (cases "getMutableObject a childId")
  case None
  then show ?thesis by simp
next
  case child: (Some childObj)
  show ?thesis
  proof (cases "getMutableObject a objId")
    case None
    then show ?thesis using child by simp
  next
    case (Some obj)
    show ?thesis
    proof (cases pt)
      case FillColor
      then have "applyToChildren_loop pt objId (childId # rest) oldProps a =
          applyToChildren_loop pt objId rest (oldProps(childId \<mapsto> fillColorStart childObj))
            (writeObject a childId (childObj\<lparr>fillColorStart := fillColorStart obj\<rparr>))"
        using child Some by simp
      then show ?thesis by blast
    next
      case StrokeColor
      then have "applyToChildren_loop pt objId (childId # rest) oldProps a =
          applyToChildren_loop pt objId rest (oldProps(childId \<mapsto> strokeColorStart childObj))
            (writeObject a childId (childObj\<lparr>fillColorStart := strokeColorStart obj\<rparr>))"
        using child Some by simp
      then show ?thesis by blast
    qed
  qed
qed

lemma applyToChildren_loop_unvisited:
  "x \<notin> set ids \<Longrightarrow> fst (applyToChildren_loop pt objId ids oldProps a) x = oldProps x"
proof (induction ids arbitrary: oldProps a)
  case Nil
  show ?case by simp
next
  case (Cons childId rest)
  then have x: "x \<notin> set rest" "x \<noteq> childId" by auto
  from applyToChildren_loop_Cons_cases [of pt objId childId rest oldProps a]
  show ?case
  proof
    assume "applyToChildren_loop pt objId (childId # rest) oldProps a =
              applyToChildren_loop pt objId rest oldProps a"
    then show ?thesis using Cons.IH [OF x(1), of oldProps a] by simp
  next
    assume "\<exists>w newObj. applyToChildren_loop pt objId (childId # rest) oldProps a =
      applyToChildren_loop pt objId rest (oldProps(childId \<mapsto> w)) (writeObject a childId newObj)"
    then obtain w newObj where
      "applyToChildren_loop pt objId (childId # rest) oldProps a =
         applyToChildren_loop pt objId rest (oldProps(childId \<mapsto> w)) (writeObject a childId newObj)"
      by blast
    then have s: "fst (applyToChildren_loop pt objId (childId # rest) oldProps a) x =
        fst (applyToChildren_loop pt objId rest (oldProps(childId \<mapsto> w)) (writeObject a childId newObj)) x"
      by (simp only:)
    have e: "(oldProps(childId \<mapsto> w)) x = oldProps x" using x(2) by simp
    show ?thesis
      unfolding s
      using Cons.IH [OF x(1), of "oldProps(childId \<mapsto> w)" "writeObject a childId newObj"] e
      by (simp only:)
  qed
qed

lemma applyToChildren_loop_keeps_entries:
  "x \<in> dom oldProps \<Longrightarrow> x \<in> dom (fst (applyToChildren_loop pt objId ids oldProps a))"
proof (induction ids arbitrary: oldProps a)
  case Nil
  then show ?case by simp
next
  case (Cons childId rest)
  from applyToChildren_loop_Cons_cases [of pt objId childId rest oldProps a]
  show ?case
  proof
    assume "applyToChildren_loop pt objId (childId # rest) oldProps a =
              applyToChildren_loop pt objId rest oldProps a"
    then show ?thesis using Cons.IH [of oldProps a] Cons.prems by (simp only:)
  next
    assume "\<exists>w newObj. applyToChildren_loop pt objId (childId # rest) oldProps a =
      applyToChildren_loop pt objId rest (oldProps(childId \<mapsto> w)) (writeObject a childId newObj)"
    then obtain w newObj where
      s: "applyToChildren_loop pt objId (childId # rest) oldProps a =
         applyToChildren_loop pt objId rest (oldProps(childId \<mapsto> w)) (writeObject a childId newObj)"
      by blast
    have "x \<in> dom (oldProps(childId \<mapsto> w))" using Cons.prems by simp
    then show ?thesis
      unfolding s
      by (rule Cons.IH)
  qed
qed

lemma execute_snapshot_unvisited:
  assumes "x \<notin> set (breadthFirst a objId) \<or> objects a x = None"
  shows "fst (ApplyU8Vec4ToChildrenCommand_execute objId pt oldProps a) x = oldProps x"
proof (cases "getMutableObject a objId")
  case None
  then show ?thesis by (simp add: ApplyU8Vec4ToChildrenCommand_execute_def)
next
  case (Some obj)
  obtain op' a' where r: "applyToChildren_loop pt objId (breadthFirst a objId) oldProps a = (op', a')"
    by (cases "applyToChildren_loop pt objId (breadthFirst a objId) oldProps a")
  have "op' x = oldProps x"
  proof (cases "x \<in> set (breadthFirst a objId)")
    case False
    then show ?thesis
      using applyToChildren_loop_unvisited [of x "breadthFirst a objId" pt objId oldProps a] r by simp
  next
    case True
    then have "objects a x = None" using assms by simp
    then show ?thesis
      using applyToChildren_loop_frame [where pt = pt and objId = objId
          and ids = "breadthFirst a objId" and oldProps = oldProps and a = a] r
      by simp
  qed
  then show ?thesis using Some r by (simp add: ApplyU8Vec4ToChildrenCommand_execute_def)
qed

lemma execute_snapshot_keeps_entries:
  assumes "x \<in> dom oldProps"
  shows "x \<in> dom (fst (ApplyU8Vec4ToChildrenCommand_execute objId pt oldProps a))"
proof (cases "getMutableObject a objId")
  case None
  then show ?thesis using assms by (simp add: ApplyU8Vec4ToChildrenCommand_execute_def)
next
  case (Some obj)
  obtain op' a' where r: "applyToChildren_loop pt objId (breadthFirst a objId) oldProps a = (op', a')"
    by (cases "applyToChildren_loop pt objId (breadthFirst a objId) oldProps a")
  have "x \<in> dom (fst (applyToChildren_loop pt objId (breadthFirst a objId) oldProps a))"
    using assms by (rule applyToChildren_loop_keeps_entries)
  then have "x \<in> dom op'" unfolding r by simp
  moreover have "fst (ApplyU8Vec4ToChildrenCommand_execute objId pt oldProps a) = op'"
    using Some r by (simp add: ApplyU8Vec4ToChildrenCommand_execute_def)
  ultimately show ?thesis by (simp only:)
qed

subsection \<open>Evaluating the log of capacity 3\<close>

lemmas log_eval_defs = pushAndExecuteCommand_def truncateRedoBranch_def evictOldest_def
  placeAndExecute_def removeCommandsAfterTail.simps bindE_def u32_mod_def u32_add_def u32_sub_def
  destroySlot_def executeSlot_def liveCommand_def setSlot_def undo_def redo_def Let_def

lemmas eval_defs = log_eval_defs
  ModifyU8Vec4Command_execute_def ModifyU8Vec4Command_undo_def getMutableObject_def
  writeObject_def updateObjectState_def

lemmas example_defs = log3_def familyStore_def emptyStore_def fillGreen_def fillBlue_def
  fillYellow_def fillRed_def

lemma init_log3: "init familyStore 3 = Inr log3"
proof -
  have u: "unat (3 :: 32 word) = 3" by simp
  have r: "replicate 3 (None :: Command option) = [None, None, None]" by (simp add: numeral_3_eq_3)
  show ?thesis unfolding init_def log3_def u r by simp
qed

lemma wellFormed_log3: "wellFormed log3"
  using init_wellFormed [OF init_log3] by simp

lemma push_green: "pushAndExecuteCommand log3 fillGreen = Inr logGreen"
  by (simp add: log_eval_defs log3_def logGreen_def fillGreen_def storeGreen_def)

lemma push_blue: "pushAndExecuteCommand logGreen fillBlue = Inr logBlue"
  by (simp add: log_eval_defs logGreen_def logBlue_def fillBlue_def storeBlue_def)

lemma undo_blue: "undo logBlue = Inr logUndone"
  by (simp add: log_eval_defs logBlue_def logUndone_def fillBlue_def storeUndone_def)

lemma wellFormed_logUndone: "wellFormed logUndone"
  using wellFormed_undo [OF wellFormed_push [OF wellFormed_push [OF wellFormed_log3 push_green] push_blue] undo_blue] .

lemma wellFormed_logBlue: "wellFormed logBlue"
  using wellFormed_push [OF wellFormed_push [OF wellFormed_log3 push_green] push_blue] .

lemma upt_0_2: "[0..<2] = [0, 1]"
  by (simp add: numeral_2_eq_2)

lemma four_pushes:
  "map_sum id logFields
     (bindE (init familyStore 3) (\<lambda>us0. pushAll us0 [fillGreen, fillBlue, fillYellow, fillRed])) =
   Inr (2, 2, 1, 3, [Some fillRed, None, Some fillYellow])"
  unfolding init_log3
  by (simp add: eval_defs example_defs logFields_def)

lemma four_pushes_retained:
  "\<exists>us. bindE (init familyStore 3) (\<lambda>us0. pushAll us0 [fillGreen, fillBlue, fillYellow, fillRed]) = Inr us \<and>
        numCommands us = 2 \<and> retained us = [Some fillYellow, Some fillRed]"
proof (cases "bindE (init familyStore 3) (\<lambda>us0. pushAll us0 [fillGreen, fillBlue, fillYellow, fillRed])")
  case (Inl e)
  then show ?thesis using four_pushes by simp
next
  case (Inr us)
  then have "logFields us = (2, 2, 1, 3, [Some fillRed, None, Some fillYellow])"
    using four_pushes by simp
  then have f: "numCommands us = 2" "undoCursorHead us = 2" "maxHistorySize us = 3"
    "history us = [Some fillRed, None, Some fillYellow]"
    by (simp_all add: logFields_def)
  have "retained us = [Some fillYellow, Some fillRed]"
    by (simp add: retained_def slotIndex_def f upt_0_2)
  then show ?thesis using Inr f by simp
qed

section \<open>The claims\<close>

subsection \<open>Initialisation\<close>

text \<open>
  Claim C8. \<^verbatim>\<open>init\<close> with a \<^verbatim>\<open>maxHistory\<close> of at most 1 fails the assertion (the fatal
  branch of the model); with a \<^verbatim>\<open>maxHistory\<close> of 2 or more it returns a log with that
  many slots, none of them holding a command, and with head, tail and count all 0.
\<close>

theorem init_capacity:
  "(sint maxHistory \<le> 1 \<longrightarrow> init a maxHistory = Inl AssertionFailed) \<and>
   (1 < sint maxHistory \<longrightarrow>
      init a maxHistory =
        Inr \<lparr>am = a, history = replicate (nat (sint maxHistory)) None, numCommands = 0,
             undoCursorTail = 0, undoCursorHead = 0, maxHistorySize = nat (sint maxHistory)\<rparr>)"
  by (simp add: init_def unat_of_positive_int)

theorem init_capacity_witness:
  "sint (1 :: 32 word) \<le> 1 \<and> init emptyStore 1 = Inl AssertionFailed \<and>
   sint (- 5 :: 32 word) \<le> 1 \<and> init emptyStore (- 5) = Inl AssertionFailed \<and>
   1 < sint (2 :: 32 word) \<and>
   init emptyStore 2 = Inr \<lparr>am = emptyStore, history = [None, None], numCommands = 0,
             undoCursorTail = 0, undoCursorHead = 0, maxHistorySize = 2\<rparr>"
  using init_capacity [of 1 emptyStore] init_capacity [of "- 5" emptyStore]
    init_capacity [of 2 emptyStore]
  by (simp add: numeral_2_eq_2)

subsection \<open>One slot stays empty\<close>

text \<open>
  Claim C9. \<^verbatim>\<open>init\<close> establishes the invariant \<open>wellFormed\<close>, and recording a command,
  \<^verbatim>\<open>undo\<close> and \<^verbatim>\<open>redo\<close> each return without error from a log that satisfies it and
  re-establish it. Under the invariant the count is at most the capacity minus 1 (the
  retained slots are exactly the live ones), so some slot of the array holds no command.
\<close>

theorem ring_keeps_one_slot_empty:
  "(1 < sint maxHistory \<longrightarrow> (\<exists>us0. init a maxHistory = Inr us0 \<and> wellFormed us0)) \<and>
   (wellFormed us \<longrightarrow>
      numCommands us \<le> maxHistorySize us - 1 \<and>
      (\<exists>p < maxHistorySize us. history us ! p = None) \<and>
      (\<exists>us'. pushAndExecuteCommand us cmd = Inr us' \<and> wellFormed us') \<and>
      (\<exists>us'. undo us = Inr us' \<and> wellFormed us') \<and>
      (\<exists>us'. redo us = Inr us' \<and> wellFormed us'))"
proof (intro conjI impI)
  assume "1 < sint maxHistory"
  then obtain us0 where "init a maxHistory = Inr us0" by (simp add: init_def)
  then show "\<exists>us0. init a maxHistory = Inr us0 \<and> wellFormed us0"
    using init_wellFormed by blast
next
  assume wf: "wellFormed us"
  show "numCommands us \<le> maxHistorySize us - 1" using wellFormedD(7) [OF wf] by simp
next
  assume wf: "wellFormed us"
  have "history us ! slotIndex us (numCommands us) = None"
    using wf_empty [OF wf, of "numCommands us"] wellFormedD(7) [OF wf] by simp
  moreover have "slotIndex us (numCommands us) < maxHistorySize us"
    using wellFormedD(2) [OF wf] by (rule slotIndex_lt)
  ultimately show "\<exists>p < maxHistorySize us. history us ! p = None" by blast
next
  assume wf: "wellFormed us"
  show "\<exists>us'. pushAndExecuteCommand us cmd = Inr us' \<and> wellFormed us'"
    using pushAndExecuteCommand_result [OF wf, of cmd] by blast
next
  assume wf: "wellFormed us"
  show "\<exists>us'. undo us = Inr us' \<and> wellFormed us'"
  proof (cases "appliedCount us = 0")
    case True
    then show ?thesis using undo_nothing [OF wf] wf by simp
  next
    case False
    then show ?thesis using undo_step [OF wf] by blast
  qed
next
  assume wf: "wellFormed us"
  show "\<exists>us'. redo us = Inr us' \<and> wellFormed us'"
  proof (cases "appliedCount us = numCommands us")
    case True
    then show ?thesis using redo_nothing [OF wf] wf by simp
  next
    case False
    then have "appliedCount us < numCommands us" using wellFormedD(8) [OF wf] by simp
    then show ?thesis using redo_step [OF wf] by blast
  qed
qed

theorem ring_keeps_one_slot_empty_witness:
  "1 < sint (3 :: 32 word) \<and> init familyStore 3 = Inr log3 \<and> wellFormed log3 \<and>
   numCommands log3 \<le> maxHistorySize log3 - 1 \<and>
   pushAndExecuteCommand log3 fillGreen = Inr logGreen \<and> wellFormed logGreen \<and>
   undo log3 = Inr log3 \<and> redo log3 = Inr log3 \<and>
   wellFormed logUndone \<and> numCommands logUndone \<le> maxHistorySize logUndone - 1 \<and>
   (\<exists>us'. undo logUndone = Inr us' \<and> wellFormed us') \<and>
   (\<exists>us'. redo logUndone = Inr us' \<and> wellFormed us')"
  using ring_keeps_one_slot_empty [of 3 familyStore log3 fillGreen]
    ring_keeps_one_slot_empty [of 3 familyStore logUndone fillGreen]
    wellFormed_log3 init_log3 push_green wellFormed_logUndone
    undo_nothing [OF wellFormed_log3] redo_nothing [OF wellFormed_log3]
  by (simp add: appliedCount_def log3_def)

subsection \<open>Nothing to undo, nothing to redo\<close>

text \<open>
  Claim C7. \<^verbatim>\<open>undo\<close> returns the log as it is, store included, whenever head and tail
  are equal, and so does a second \<^verbatim>\<open>undo\<close>. \<^verbatim>\<open>redo\<close> returns the log as it is
  whenever the tail equals \<open>(head + count) mod capacity\<close>, and so does a second
  \<^verbatim>\<open>redo\<close>; here the capacity is not 0 and head plus count is within \<^verbatim>\<open>uint32\<close>, as in
  every log that \<^verbatim>\<open>init\<close> returned.
\<close>

theorem undo_redo_noop:
  "(undoCursorHead us = undoCursorTail us \<longrightarrow>
      undo us = Inr us \<and> bindE (undo us) undo = Inr us) \<and>
   (0 < maxHistorySize us \<and> undoCursorHead us + numCommands us < 2 ^ 32
      \<and> undoCursorTail us = (undoCursorHead us + numCommands us) mod maxHistorySize us \<longrightarrow>
      redo us = Inr us \<and> bindE (redo us) redo = Inr us)"
  by (auto simp: undo_def redo_def bindE_def u32_mod_def u32_add_def)

text \<open>
  The fresh log of capacity 3 (nothing recorded), and the log with two commands recorded
  and none undone (nothing to redo).
\<close>

theorem undo_redo_noop_witness:
  "undoCursorHead log3 = undoCursorTail log3 \<and> undo log3 = Inr log3 \<and>
   undoCursorTail log3 = (undoCursorHead log3 + numCommands log3) mod maxHistorySize log3 \<and>
   redo log3 = Inr log3 \<and>
   undoCursorTail logBlue = (undoCursorHead logBlue + numCommands logBlue) mod maxHistorySize logBlue \<and>
   redo logBlue = Inr logBlue"
  using undo_redo_noop [of log3] undo_redo_noop [of logBlue]
  by (simp add: log3_def logBlue_def)

subsection \<open>The two empty entry points\<close>

text \<open>
  Claim C10. \<^verbatim>\<open>addNewObjToScene\<close> and \<^verbatim>\<open>removeObjFromScene\<close> have empty bodies: for
  every log and every argument the log comes back unchanged, with its store, its three
  counters and every slot.
\<close>

theorem scene_entry_points_no_effect:
  "addNewObjToScene us obj = us \<and> removeObjFromScene us objId = us"
  by (simp add: addNewObjToScene_def removeObjFromScene_def)

subsection \<open>Recording after an undo\<close>

text \<open>
  Claim C6. From a log that satisfies the invariant, the first phase of
  \<^verbatim>\<open>pushAndExecuteCommand\<close> empties every retained slot from the tail cursor on (the
  commands that were undone) and keeps the others; the count goes down by the number of
  slots that went from live to empty; the remaining phases (eviction, then storing and
  executing the new command) run on that truncated log; and on the log that results,
  \<^verbatim>\<open>redo\<close> changes nothing.
\<close>

theorem recording_discards_redo_branch:
  "wellFormed us \<Longrightarrow>
     \<exists>us1 us'.
       truncateRedoBranch us = Inr us1 \<and>
       (\<forall>j < maxHistorySize us.
          history us1 ! slotIndex us j =
            (if j < appliedCount us then history us ! slotIndex us j else None)) \<and>
       numCommands us1 \<le> numCommands us \<and>
       numCommands us - numCommands us1 =
         length (filter (\<lambda>j. history us ! slotIndex us j \<noteq> None \<and> history us1 ! slotIndex us j = None)
                   [0..<maxHistorySize us]) \<and>
       pushAndExecuteCommand us cmd = bindE (evictOldest us1) (\<lambda>us2. placeAndExecute us2 cmd) \<and>
       pushAndExecuteCommand us cmd = Inr us' \<and>
       redo us' = Inr us'"
proof -
  assume wf: "wellFormed us"
  note d = wellFormedD [OF wf]
  obtain us1 where t: "truncateRedoBranch us = Inr us1"
    and n1: "numCommands us1 = appliedCount us"
    and slots: "\<forall>j < maxHistorySize us.
              history us1 ! slotIndex us j =
                (if j < appliedCount us then history us ! slotIndex us j else None)"
    using truncateRedoBranch_result [OF wf] by blast
  obtain us' where p: "pushAndExecuteCommand us cmd = Inr us'" and wf': "wellFormed us'"
    and eq': "appliedCount us' = numCommands us'"
    using pushAndExecuteCommand_result [OF wf, of cmd] by blast
  have "filter (\<lambda>j. history us ! slotIndex us j \<noteq> None \<and> history us1 ! slotIndex us j = None)
          [0..<maxHistorySize us] =
        filter (\<lambda>j. appliedCount us \<le> j \<and> j < numCommands us) [0..<maxHistorySize us]"
  proof (rule filter_cong [OF refl])
    fix j assume "j \<in> set [0..<maxHistorySize us]"
    then have j: "j < maxHistorySize us" by simp
    show "(history us ! slotIndex us j \<noteq> None \<and> history us1 ! slotIndex us j = None) =
          (appliedCount us \<le> j \<and> j < numCommands us)"
      using slots j d(10) [OF j] by auto
  qed
  then have cnt: "length (filter (\<lambda>j. history us ! slotIndex us j \<noteq> None \<and> history us1 ! slotIndex us j = None)
                   [0..<maxHistorySize us]) = numCommands us - appliedCount us"
    using count_window [of "appliedCount us" "numCommands us" "maxHistorySize us"] d(7,8) by simp
  have split: "pushAndExecuteCommand us cmd = bindE (evictOldest us1) (\<lambda>us2. placeAndExecute us2 cmd)"
    by (simp add: pushAndExecuteCommand_def t bindE_def)
  have r: "redo us' = Inr us'" by (rule redo_nothing [OF wf' eq'])
  show ?thesis
    by (rule exI [of _ us1], rule exI [of _ us'])
       (use t slots n1 d(8) cnt split p r in simp)
qed

theorem recording_discards_redo_branch_witness:
  "wellFormed logUndone \<and>
   truncateRedoBranch logUndone =
     Inr (logUndone\<lparr>history := [Some fillGreen, None, None], numCommands := 1\<rparr>) \<and>
   pushAndExecuteCommand logUndone fillYellow =
     Inr \<lparr>am = ModifyU8Vec4Command_execute 1 blue yellow FillColor storeUndone,
          history = [Some fillGreen, Some fillYellow, None], numCommands = 2,
          undoCursorTail = 2, undoCursorHead = 0, maxHistorySize = 3\<rparr> \<and>
   redo \<lparr>am = ModifyU8Vec4Command_execute 1 blue yellow FillColor storeUndone,
          history = [Some fillGreen, Some fillYellow, None], numCommands = 2,
          undoCursorTail = 2, undoCursorHead = 0, maxHistorySize = 3\<rparr> =
     Inr \<lparr>am = ModifyU8Vec4Command_execute 1 blue yellow FillColor storeUndone,
          history = [Some fillGreen, Some fillYellow, None], numCommands = 2,
          undoCursorTail = 2, undoCursorHead = 0, maxHistorySize = 3\<rparr>"
  using recording_discards_redo_branch [OF wellFormed_logUndone, of fillYellow] wellFormed_logUndone
  by (simp add: log_eval_defs logUndone_def fillYellow_def fillBlue_def fillGreen_def)

subsection \<open>Filling the log\<close>

text \<open>
  Claim C1, as the code has it. A log initialised with capacity \<open>N > 1\<close> that then
  records \<open>N + 1\<close> commands, with no undo in between, returns without error and retains
  \<open>N - 1\<close> commands: the \<open>N - 1\<close> most recently recorded ones, in the order recorded (up
  to the snapshots that executing them stored). The first two recorded commands are gone.
  Any number \<open>k\<close> of \<^verbatim>\<open>undo\<close> calls afterwards returns without error, leaves the
  retained commands as they are, and leaves \<open>N - 1 - k\<close> of them applied; the next
  \<^verbatim>\<open>undo\<close> then either does nothing (none is applied) or reverses one of the retained
  commands.
\<close>

theorem full_log_retains_capacity_minus_one:
  assumes "1 < sint maxHistory" and "length cs = nat (sint maxHistory) + 1"
  shows "\<exists>us. bindE (init a maxHistory) (\<lambda>us0. pushAll us0 cs) = Inr us \<and>
           numCommands us = nat (sint maxHistory) - 1 \<and>
           recorded us = map (\<lambda>c. Some (forgetSnapshot c)) (drop 2 cs) \<and>
           (\<forall>k. \<exists>us'. undoTimes k us = Inr us' \<and>
                  retained us' = retained us \<and> undoCursorHead us' = undoCursorHead us \<and>
                  numCommands us' = numCommands us \<and>
                  appliedCount us' = nat (sint maxHistory) - 1 - k \<and>
                  ((appliedCount us' = 0 \<and> undo us' = Inr us') \<or>
                   (\<exists>cmd us''. appliedCount us' - 1 < numCommands us' \<and>
                      retained us' ! (appliedCount us' - 1) = Some cmd \<and>
                      undo us' = Inr us'' \<and> am us'' = Command_undo cmd (am us'))))"
proof -
  let ?N = "nat (sint maxHistory)"
  obtain us0 where i: "init a maxHistory = Inr us0" using assms(1) by (simp add: init_def)
  have wf0: "wellFormed us0" and z: "numCommands us0 = 0" "appliedCount us0 = 0"
    "maxHistorySize us0 = ?N" "retained us0 = []"
    using init_wellFormed [OF i] by simp_all
  have eq0: "appliedCount us0 = numCommands us0" using z by simp
  obtain us where pa: "pushAll us0 cs = Inr us" and wf: "wellFormed us"
    and eq: "appliedCount us = numCommands us" and c: "maxHistorySize us = maxHistorySize us0"
    and r: "recorded us =
              drop (length (recorded us0) + length cs - (maxHistorySize us0 - 1))
                (recorded us0 @ map (\<lambda>c. Some (forgetSnapshot c)) cs)"
    using pushAll_recorded [OF wf0 eq0, of cs] by blast
  have N: "2 \<le> ?N" using assms(1) by simp
  have rec: "recorded us = map (\<lambda>c. Some (forgetSnapshot c)) (drop 2 cs)"
    using r z assms(2) N by (simp add: recorded_def drop_map)
  have "length (recorded us) = ?N - 1" using rec assms(2) by simp
  then have n: "numCommands us = ?N - 1" by (simp add: recorded_def length_retained)
  have run: "bindE (init a maxHistory) (\<lambda>us0. pushAll us0 cs) = Inr us"
    by (simp add: i pa bindE_def)
  have undos: "\<forall>k. \<exists>us'. undoTimes k us = Inr us' \<and>
                  retained us' = retained us \<and> undoCursorHead us' = undoCursorHead us \<and>
                  numCommands us' = numCommands us \<and>
                  appliedCount us' = ?N - 1 - k \<and>
                  ((appliedCount us' = 0 \<and> undo us' = Inr us') \<or>
                   (\<exists>cmd us''. appliedCount us' - 1 < numCommands us' \<and>
                      retained us' ! (appliedCount us' - 1) = Some cmd \<and>
                      undo us' = Inr us'' \<and> am us'' = Command_undo cmd (am us')))"
  proof
    fix k
    obtain us' where u: "undoTimes k us = Inr us'" and wf': "wellFormed us'"
      and f: "retained us' = retained us" "undoCursorHead us' = undoCursorHead us"
        "numCommands us' = numCommands us" "appliedCount us' = appliedCount us - k"
      using undoTimes_result [OF wf, of k] by blast
    show "\<exists>us'. undoTimes k us = Inr us' \<and>
                  retained us' = retained us \<and> undoCursorHead us' = undoCursorHead us \<and>
                  numCommands us' = numCommands us \<and>
                  appliedCount us' = ?N - 1 - k \<and>
                  ((appliedCount us' = 0 \<and> undo us' = Inr us') \<or>
                   (\<exists>cmd us''. appliedCount us' - 1 < numCommands us' \<and>
                      retained us' ! (appliedCount us' - 1) = Some cmd \<and>
                      undo us' = Inr us'' \<and> am us'' = Command_undo cmd (am us')))"
      using u f eq n next_undo_reverses_retained [OF wf'] by (intro exI [of _ us']) simp
  qed
  show ?thesis using run n rec undos by (intro exI [of _ us]) simp
qed

theorem full_log_retains_capacity_minus_one_witness:
  "1 < sint (3 :: 32 word) \<and>
   length [fillGreen, fillBlue, fillYellow, fillRed] = nat (sint (3 :: 32 word)) + 1 \<and>
   (\<exists>us. bindE (init familyStore 3) (\<lambda>us0. pushAll us0 [fillGreen, fillBlue, fillYellow, fillRed]) = Inr us \<and>
         numCommands us = 2 \<and>
         recorded us = [Some fillYellow, Some fillRed])"
proof -
  have h: "1 < sint (3 :: 32 word)"
    "length [fillGreen, fillBlue, fillYellow, fillRed] = nat (sint (3 :: 32 word)) + 1"
    by simp_all
  show ?thesis
    using h full_log_retains_capacity_minus_one [OF h, of familyStore]
    by (auto simp: fillYellow_def fillRed_def)
qed

text \<open>
  Capacity 3 and four recorded commands: two commands are retained, not three.
\<close>

theorem full_log_retains_capacity_counterexample:
  "map_sum id (\<lambda>us. (numCommands us, retained us))
     (bindE (init familyStore 3) (\<lambda>us0. pushAll us0 [fillGreen, fillBlue, fillYellow, fillRed])) =
   Inr (2, [Some fillYellow, Some fillRed]) \<and>
   \<not> (\<exists>us. bindE (init familyStore 3) (\<lambda>us0. pushAll us0 [fillGreen, fillBlue, fillYellow, fillRed]) = Inr us
          \<and> numCommands us = 3)"
  using four_pushes_retained by auto

subsection \<open>Apply, undo, redo of one modification\<close>

text \<open>
  Claim C4. From a log that satisfies the invariant, recording a \<^verbatim>\<open>ModifyU8Vec4Command\<close>
  (either selector), then \<^verbatim>\<open>undo\<close>, then \<^verbatim>\<open>redo\<close> all return without error. If the
  target is in the store, its selected member is the new value after recording, the old
  value after the undo, and the new value again after the redo. After the redo the
  objects of the store, the traversal, the slots and the three counters are what they
  were right after recording; a second undo followed by a second redo leaves all of
  them the same once more.
\<close>

theorem modify_apply_undo_redo:
  "wellFormed us \<Longrightarrow>
     \<exists>us1 us2 us3 us4 us5.
       setU8Vec4Prop us objId oldVec newVec propType = Inr us1 \<and>
       undo us1 = Inr us2 \<and> redo us2 = Inr us3 \<and>
       (\<forall>obj. objects (am us) objId = Some obj \<longrightarrow>
          objects (am us1) objId = Some (withSelectedProp propType newVec obj) \<and>
          objects (am us2) objId = Some (withSelectedProp propType oldVec obj) \<and>
          map_option (selectedProp propType) (objects (am us3) objId) = Some newVec) \<and>
       objects (am us3) = objects (am us1) \<and> breadthFirst (am us3) = breadthFirst (am us1) \<and>
       history us3 = history us1 \<and> bookkeeping us3 = bookkeeping us1 \<and>
       undo us3 = Inr us4 \<and> redo us4 = Inr us5 \<and>
       objects (am us5) = objects (am us3) \<and> breadthFirst (am us5) = breadthFirst (am us3) \<and>
       history us5 = history us3 \<and> bookkeeping us5 = bookkeeping us3"
proof -
  assume wf: "wellFormed us"
  let ?cmd = "ModifyU8Vec4Command objId oldVec newVec propType"
  have same: "\<And>x. fst (Command_execute ?cmd x) = ?cmd" by simp
  obtain us1 where p: "pushAndExecuteCommand us ?cmd = Inr us1" and wf1: "wellFormed us1"
    and eq1: "appliedCount us1 = numCommands us1"
    and a1: "am us1 = snd (Command_execute ?cmd (am us))"
    and r1: "retained us1 = (if appliedCount us + 1 = maxHistorySize us
                             then tl (take (appliedCount us) (retained us))
                             else take (appliedCount us) (retained us)) @ [Some ?cmd]"
    using pushAndExecuteCommand_result [OF wf, of ?cmd] by (auto split: if_splits)
  have pos1: "0 < appliedCount us1" and last1: "retained us1 ! (appliedCount us1 - 1) = Some ?cmd"
    using retained_last [OF r1 eq1] by simp_all
  obtain us2 us3 where u1: "undo us1 = Inr us2" and re1: "redo us2 = Inr us3"
    and a2: "am us2 = Command_undo ?cmd (am us1)"
    and a3: "am us3 = snd (Command_execute ?cmd (Command_undo ?cmd (am us1)))"
    and h3: "history us3 = history us1" and b3: "bookkeeping us3 = bookkeeping us1"
    and c3: "maxHistorySize us3 = maxHistorySize us1" and wf3: "wellFormed us3"
    using undo_redo_roundtrip [OF wf1 pos1 last1 same] by blast
  have k3: "appliedCount us3 = appliedCount us1"
    using b3 c3 by (simp add: bookkeeping_def appliedCount_def)
  have ret3: "retained us3 = retained us1"
    using b3 c3 h3 by (simp add: retained_def bookkeeping_def slotIndex_def)
  have pos3: "0 < appliedCount us3" using k3 pos1 by simp
  have last3: "retained us3 ! (appliedCount us3 - 1) = Some ?cmd" using ret3 k3 last1 by simp
  obtain us4 us5 where u3: "undo us3 = Inr us4" and re3: "redo us4 = Inr us5"
    and a5: "am us5 = snd (Command_execute ?cmd (Command_undo ?cmd (am us3)))"
    and h5: "history us5 = history us3" and b5: "bookkeeping us5 = bookkeeping us3"
    using undo_redo_roundtrip [OF wf3 pos3 last3 same] by blast
  have o3: "objects (am us3) = objects (am us1)"
    unfolding a3 a1 by (simp add: Modify_execute_undo_execute)
  have o5: "objects (am us5) = objects (am us3)"
    unfolding a5 a3 by (simp add: Modify_execute_undo_twice)
  have bf: "breadthFirst (am us3) = breadthFirst (am us1)" "breadthFirst (am us5) = breadthFirst (am us3)"
    unfolding a5 a3 by (simp_all add: Modify_breadthFirst)
  have vals: "\<forall>obj. objects (am us) objId = Some obj \<longrightarrow>
          objects (am us1) objId = Some (withSelectedProp propType newVec obj) \<and>
          objects (am us2) objId = Some (withSelectedProp propType oldVec obj) \<and>
          map_option (selectedProp propType) (objects (am us3) objId) = Some newVec"
    unfolding o3 unfolding a2 a1
    by (simp add: Modify_execute_objects Modify_undo_objects withSelectedProp_twice selectedProp_with)
  show ?thesis
    unfolding setU8Vec4Prop_def
    by (rule exI [of _ us1], rule exI [of _ us2], rule exI [of _ us3], rule exI [of _ us4],
        rule exI [of _ us5])
       (use p u1 re1 vals o3 bf h3 b3 u3 re3 o5 h5 b5 in \<open>simp add: selectedProp_with\<close>)
qed

theorem modify_apply_undo_redo_witness:
  "wellFormed log3 \<and>
   objects (am log3) 1 = Some \<lparr>fillColorStart = red, strokeColorStart = blue\<rparr> \<and>
   (case setU8Vec4Prop log3 1 red green FillColor of
      Inl e \<Rightarrow> False
    | Inr us1 \<Rightarrow>
        objects (am us1) 1 = Some \<lparr>fillColorStart = green, strokeColorStart = blue\<rparr> \<and>
        bookkeeping us1 = (0, 1, 1)) \<and>
   (case bindE (setU8Vec4Prop log3 1 red green FillColor) undo of
      Inl e \<Rightarrow> False
    | Inr us2 \<Rightarrow>
        objects (am us2) 1 = Some \<lparr>fillColorStart = red, strokeColorStart = blue\<rparr> \<and>
        bookkeeping us2 = (0, 0, 1)) \<and>
   (case bindE (bindE (setU8Vec4Prop log3 1 red green FillColor) undo) redo of
      Inl e \<Rightarrow> False
    | Inr us3 \<Rightarrow>
        objects (am us3) 1 = Some \<lparr>fillColorStart = green, strokeColorStart = blue\<rparr> \<and>
        bookkeeping us3 = (0, 1, 1))"
  using modify_apply_undo_redo [OF wellFormed_log3, of 1 red green FillColor] wellFormed_log3
  by (simp add: log_eval_defs setU8Vec4Prop_def log3_def familyStore_def bookkeeping_def
        ModifyU8Vec4Command_execute_def ModifyU8Vec4Command_undo_def getMutableObject_def
        writeObject_def updateObjectState_def withSelectedProp_def selectedProp_def)

subsection \<open>Missing targets\<close>

text \<open>
  Claim C5. When the target of a command is not in the store, \<^verbatim>\<open>execute\<close> and
  \<^verbatim>\<open>undo\<close> of both classes return the store (objects and notifications) and the
  command unchanged. When an identifier is not in the store, the cascading command
  neither creates an object for it, nor records a snapshot entry for it, nor notifies the
  store for it, in \<^verbatim>\<open>execute\<close> and in \<^verbatim>\<open>undo\<close>. From a log that satisfies the
  invariant, recording, \<^verbatim>\<open>undo\<close> and \<^verbatim>\<open>redo\<close> return without error on any store
  \<open>b\<close>, and the bookkeeping they perform is the same on every store. Recording advances
  the tail by one (mod capacity), sets the count to the number of applied commands plus
  one, and, when the advanced tail would meet the head, advances the head and takes one
  off the count; the store becomes what \<^verbatim>\<open>execute\<close> of the new command returns and the
  command sits in the slot at the old tail. \<^verbatim>\<open>undo\<close> with head equal to tail changes
  nothing; otherwise it steps the tail back by one (from 0 to capacity minus 1) and the
  store becomes what \<^verbatim>\<open>undo\<close> of the command in that slot returns. \<^verbatim>\<open>redo\<close> with
  the tail at \<open>(head + count) mod capacity\<close> changes nothing; otherwise it advances the
  tail by one (mod capacity) and the store becomes what \<^verbatim>\<open>execute\<close> of the command at
  the old tail returns. Head and count are left alone by \<^verbatim>\<open>undo\<close> and \<^verbatim>\<open>redo\<close>.
\<close>

theorem missing_target_is_skipped:
  "(getMutableObject a objId = None \<longrightarrow>
      Command_execute (ModifyU8Vec4Command objId oldVec newVec propType) a =
        (ModifyU8Vec4Command objId oldVec newVec propType, a) \<and>
      Command_undo (ModifyU8Vec4Command objId oldVec newVec propType) a = a \<and>
      Command_execute (ApplyU8Vec4ToChildrenCommand objId propType oldProps) a =
        (ApplyU8Vec4ToChildrenCommand objId propType oldProps, a) \<and>
      Command_undo (ApplyU8Vec4ToChildrenCommand objId propType oldProps) a = a) \<and>
   (getMutableObject a childId = None \<longrightarrow>
      (case ApplyU8Vec4ToChildrenCommand_execute objId propType oldProps a of
         (oldProps', a') \<Rightarrow>
           objects a' childId = None \<and> oldProps' childId = oldProps childId \<and>
           filter ((=) childId) (stateUpdates a') = filter ((=) childId) (stateUpdates a)) \<and>
      objects (ApplyU8Vec4ToChildrenCommand_undo objId propType oldProps a) childId = None \<and>
      filter ((=) childId) (stateUpdates (ApplyU8Vec4ToChildrenCommand_undo objId propType oldProps a)) =
        filter ((=) childId) (stateUpdates a)) \<and>
   (wellFormed us \<longrightarrow>
      (\<exists>u v. pushAndExecuteCommand us cmd = Inr u \<and>
             pushAndExecuteCommand (us\<lparr>am := b\<rparr>) cmd = Inr v \<and>
             bookkeeping u = bookkeeping v \<and>
             bookkeeping v =
               (if (undoCursorTail us + 1) mod maxHistorySize us = undoCursorHead us
                then ((undoCursorHead us + 1) mod maxHistorySize us,
                      (undoCursorTail us + 1) mod maxHistorySize us, appliedCount us)
                else (undoCursorHead us, (undoCursorTail us + 1) mod maxHistorySize us,
                      appliedCount us + 1)) \<and>
             am v = snd (Command_execute cmd b) \<and>
             history v ! undoCursorTail us = Some (fst (Command_execute cmd b))) \<and>
      (\<exists>u v. undo us = Inr u \<and> undo (us\<lparr>am := b\<rparr>) = Inr v \<and>
             bookkeeping u = bookkeeping v \<and>
             bookkeeping v =
               (undoCursorHead us,
                (if undoCursorHead us = undoCursorTail us then undoCursorTail us
                 else if undoCursorTail us = 0 then maxHistorySize us - 1
                 else undoCursorTail us - 1),
                numCommands us) \<and>
             (if undoCursorHead us = undoCursorTail us then am v = b
              else \<exists>c. history us ! (if undoCursorTail us = 0 then maxHistorySize us - 1
                                        else undoCursorTail us - 1) = Some c \<and>
                       am v = Command_undo c b)) \<and>
      (\<exists>u v. redo us = Inr u \<and> redo (us\<lparr>am := b\<rparr>) = Inr v \<and>
             bookkeeping u = bookkeeping v \<and>
             bookkeeping v =
               (undoCursorHead us,
                (if undoCursorTail us = (undoCursorHead us + numCommands us) mod maxHistorySize us
                 then undoCursorTail us
                 else (undoCursorTail us + 1) mod maxHistorySize us),
                numCommands us) \<and>
             (if undoCursorTail us = (undoCursorHead us + numCommands us) mod maxHistorySize us
              then am v = b
              else \<exists>c. history us ! undoCursorTail us = Some c \<and>
                       am v = snd (Command_execute c b))))"
proof (intro conjI impI)
  assume "getMutableObject a objId = None"
  then show "Command_execute (ModifyU8Vec4Command objId oldVec newVec propType) a =
        (ModifyU8Vec4Command objId oldVec newVec propType, a)"
    "Command_undo (ModifyU8Vec4Command objId oldVec newVec propType) a = a"
    "Command_execute (ApplyU8Vec4ToChildrenCommand objId propType oldProps) a =
        (ApplyU8Vec4ToChildrenCommand objId propType oldProps, a)"
    "Command_undo (ApplyU8Vec4ToChildrenCommand objId propType oldProps) a = a"
    by (simp_all add: ModifyU8Vec4Command_execute_def ModifyU8Vec4Command_undo_def
          ApplyU8Vec4ToChildrenCommand_execute_def ApplyU8Vec4ToChildrenCommand_undo_def)
next
  assume c: "getMutableObject a childId = None"
  show "case ApplyU8Vec4ToChildrenCommand_execute objId propType oldProps a of
         (oldProps', a') \<Rightarrow>
           objects a' childId = None \<and> oldProps' childId = oldProps childId \<and>
           filter ((=) childId) (stateUpdates a') = filter ((=) childId) (stateUpdates a)"
    by (rule absent_child_execute [OF c])
  show "objects (ApplyU8Vec4ToChildrenCommand_undo objId propType oldProps a) childId = None"
    "filter ((=) childId) (stateUpdates (ApplyU8Vec4ToChildrenCommand_undo objId propType oldProps a)) =
        filter ((=) childId) (stateUpdates a)"
    using absent_child_undo [OF c] by simp_all
next
  assume wf: "wellFormed us"
  have wfb: "wellFormed (us\<lparr>am := b\<rparr>)" using wf by (simp add: wellFormed_am)
  obtain u where u: "pushAndExecuteCommand us cmd = Inr u"
    and bu: "bookkeeping u =
               (if (undoCursorTail us + 1) mod maxHistorySize us = undoCursorHead us
                then ((undoCursorHead us + 1) mod maxHistorySize us,
                      (undoCursorTail us + 1) mod maxHistorySize us, appliedCount us)
                else (undoCursorHead us, (undoCursorTail us + 1) mod maxHistorySize us,
                      appliedCount us + 1))"
    using push_effect [OF wf, of cmd] by blast
  obtain v where v: "pushAndExecuteCommand (us\<lparr>am := b\<rparr>) cmd = Inr v"
    and bv: "bookkeeping v =
               (if (undoCursorTail us + 1) mod maxHistorySize us = undoCursorHead us
                then ((undoCursorHead us + 1) mod maxHistorySize us,
                      (undoCursorTail us + 1) mod maxHistorySize us, appliedCount us)
                else (undoCursorHead us, (undoCursorTail us + 1) mod maxHistorySize us,
                      appliedCount us + 1))"
    and av: "am v = snd (Command_execute cmd b)"
      "history v ! undoCursorTail us = Some (fst (Command_execute cmd b))"
    using push_effect [OF wfb, of cmd] by (auto simp: appliedCount_am)
  show "\<exists>u v. pushAndExecuteCommand us cmd = Inr u \<and>
             pushAndExecuteCommand (us\<lparr>am := b\<rparr>) cmd = Inr v \<and>
             bookkeeping u = bookkeeping v \<and>
             bookkeeping v =
               (if (undoCursorTail us + 1) mod maxHistorySize us = undoCursorHead us
                then ((undoCursorHead us + 1) mod maxHistorySize us,
                      (undoCursorTail us + 1) mod maxHistorySize us, appliedCount us)
                else (undoCursorHead us, (undoCursorTail us + 1) mod maxHistorySize us,
                      appliedCount us + 1)) \<and>
             am v = snd (Command_execute cmd b) \<and>
             history v ! undoCursorTail us = Some (fst (Command_execute cmd b))"
    by (rule exI [of _ u], rule exI [of _ v]) (use u v bu bv av in simp)
next
  assume wf: "wellFormed us"
  have wfb: "wellFormed (us\<lparr>am := b\<rparr>)" using wf by (simp add: wellFormed_am)
  let ?bk = "(undoCursorHead us,
                (if undoCursorHead us = undoCursorTail us then undoCursorTail us
                 else if undoCursorTail us = 0 then maxHistorySize us - 1
                 else undoCursorTail us - 1),
                numCommands us)"
  obtain u where u: "undo us = Inr u" and bu: "bookkeeping u = ?bk"
    using undo_effect [OF wf] by blast
  obtain v where v: "undo (us\<lparr>am := b\<rparr>) = Inr v" and bv: "bookkeeping v = ?bk"
    and av: "if undoCursorHead us = undoCursorTail us then am v = b
              else \<exists>c. history us ! (if undoCursorTail us = 0 then maxHistorySize us - 1
                                        else undoCursorTail us - 1) = Some c \<and>
                       am v = Command_undo c b"
    using undo_effect [OF wfb] by (auto cong: if_cong)
  show "\<exists>u v. undo us = Inr u \<and> undo (us\<lparr>am := b\<rparr>) = Inr v \<and>
             bookkeeping u = bookkeeping v \<and> bookkeeping v = ?bk \<and>
             (if undoCursorHead us = undoCursorTail us then am v = b
              else \<exists>c. history us ! (if undoCursorTail us = 0 then maxHistorySize us - 1
                                        else undoCursorTail us - 1) = Some c \<and>
                       am v = Command_undo c b)"
    by (rule exI [of _ u], rule exI [of _ v]) (use u v bu bv av in simp)
next
  assume wf: "wellFormed us"
  have wfb: "wellFormed (us\<lparr>am := b\<rparr>)" using wf by (simp add: wellFormed_am)
  let ?bk = "(undoCursorHead us,
                (if undoCursorTail us = (undoCursorHead us + numCommands us) mod maxHistorySize us
                 then undoCursorTail us
                 else (undoCursorTail us + 1) mod maxHistorySize us),
                numCommands us)"
  obtain u where u: "redo us = Inr u" and bu: "bookkeeping u = ?bk"
    using redo_effect [OF wf] by blast
  obtain v where v: "redo (us\<lparr>am := b\<rparr>) = Inr v" and bv: "bookkeeping v = ?bk"
    and av: "if undoCursorTail us = (undoCursorHead us + numCommands us) mod maxHistorySize us
              then am v = b
              else \<exists>c. history us ! undoCursorTail us = Some c \<and>
                       am v = snd (Command_execute c b)"
    using redo_effect [OF wfb] by (auto cong: if_cong)
  show "\<exists>u v. redo us = Inr u \<and> redo (us\<lparr>am := b\<rparr>) = Inr v \<and>
             bookkeeping u = bookkeeping v \<and> bookkeeping v = ?bk \<and>
             (if undoCursorTail us = (undoCursorHead us + numCommands us) mod maxHistorySize us
              then am v = b
              else \<exists>c. history us ! undoCursorTail us = Some c \<and>
                       am v = snd (Command_execute c b))"
    by (rule exI [of _ u], rule exI [of _ v]) (use u v bu bv av in simp)
qed

text \<open>
  On the empty store every target is missing: recording on the fresh log, \<^verbatim>\<open>undo\<close>
  on the log with two applied commands and \<^verbatim>\<open>redo\<close> on the log with one undone
  command leave the store empty and move the cursors as they do on the store that has the
  target.
\<close>

theorem missing_target_is_skipped_witness:
  "getMutableObject emptyStore 1 = None \<and>
   Command_execute fillGreen emptyStore = (fillGreen, emptyStore) \<and>
   Command_undo fillGreen emptyStore = emptyStore \<and>
   Command_execute (ApplyU8Vec4ToChildrenCommand 1 FillColor Map.empty) emptyStore =
     (ApplyU8Vec4ToChildrenCommand 1 FillColor Map.empty, emptyStore) \<and>
   getMutableObject orphanStore 3 = None \<and>
   (case ApplyU8Vec4ToChildrenCommand_execute 1 FillColor Map.empty orphanStore of
      (oldProps', a') \<Rightarrow>
        objects a' 3 = None \<and> oldProps' 3 = None \<and> stateUpdates a' = [1] \<and>
        objects a' 2 = Some \<lparr>fillColorStart = red, strokeColorStart = yellow\<rparr>) \<and>
   objects (ApplyU8Vec4ToChildrenCommand_undo 1 FillColor [2 \<mapsto> green, 3 \<mapsto> blue] orphanStore) 3 = None \<and>
   stateUpdates (ApplyU8Vec4ToChildrenCommand_undo 1 FillColor [2 \<mapsto> green, 3 \<mapsto> blue] orphanStore) = [1] \<and>
   wellFormed log3 \<and> wellFormed logBlue \<and> wellFormed logUndone \<and>
   map_sum id bookkeeping (pushAndExecuteCommand log3 fillGreen) = Inr (0, 1, 1) \<and>
   pushAndExecuteCommand (log3\<lparr>am := emptyStore\<rparr>) fillGreen =
     Inr (logGreen\<lparr>am := emptyStore\<rparr>) \<and>
   map_sum id bookkeeping (undo logBlue) = Inr (0, 1, 2) \<and>
   undo (logBlue\<lparr>am := emptyStore\<rparr>) = Inr (logBlue\<lparr>am := emptyStore, undoCursorTail := 1\<rparr>) \<and>
   map_sum id bookkeeping (redo logUndone) = Inr (0, 2, 2) \<and>
   redo (logUndone\<lparr>am := emptyStore\<rparr>) = Inr (logUndone\<lparr>am := emptyStore, undoCursorTail := 2\<rparr>)"
proof -
  have e: "getMutableObject emptyStore 1 = None" by (simp add: getMutableObject_def emptyStore_def)
  have o: "getMutableObject orphanStore 3 = None" by (simp add: getMutableObject_def orphanStore_def)
  show ?thesis
    using e o wellFormed_log3 wellFormed_logBlue wellFormed_logUndone
      missing_target_is_skipped [of emptyStore 1 red green FillColor Map.empty 1 log3 fillGreen emptyStore]
      missing_target_is_skipped [of orphanStore 1 red green FillColor Map.empty 3 logBlue fillGreen emptyStore]
      missing_target_is_skipped [of orphanStore 1 red green FillColor Map.empty 3 logUndone fillGreen emptyStore]
    by (simp add: log_eval_defs log3_def logGreen_def logBlue_def logUndone_def
          fillGreen_def fillBlue_def bookkeeping_def orphanStore_def
          ApplyU8Vec4ToChildrenCommand_execute_def ApplyU8Vec4ToChildrenCommand_undo_def
          ModifyU8Vec4Command_execute_def ModifyU8Vec4Command_undo_def getMutableObject_def
          writeObject_def updateObjectState_def emptyStore_def appliedCount_def)
qed

subsection \<open>The cascading command\<close>

text \<open>
  Claim C3, as the code has it. When the target is in the store,
  \<^verbatim>\<open>ApplyU8Vec4ToChildrenCommand::undo\<close> writes the recorded value into the selected
  member of every object that the traversal yields now, that is in the store, and that
  has an entry in the snapshot map; every other object keeps its value: one no longer
  reached or no longer stored, and one with no entry. The store is notified once, for
  the target, and the traversal is unchanged. \<^verbatim>\<open>execute\<close> never removes an entry from
  the snapshot map, and for an identifier that the traversal does not yield or that is
  not stored at that time it leaves the entry as it is, present or not: an object that
  had no entry before an execution and was not reached at it is left untouched by the
  undo that follows, wherever it is in the graph then, and an object with an older entry
  is restored from that entry.
\<close>

theorem ApplyToChildren_undo_restores:
  "getMutableObject a objId = Some obj \<Longrightarrow>
     (\<forall>x. objects (ApplyU8Vec4ToChildrenCommand_undo objId propType oldProps a) x =
            (case oldProps x of
               None \<Rightarrow> objects a x
             | Some v \<Rightarrow>
                 if x \<in> set (breadthFirst a objId)
                 then map_option (withSelectedProp propType v) (objects a x)
                 else objects a x)) \<and>
     stateUpdates (ApplyU8Vec4ToChildrenCommand_undo objId propType oldProps a) =
       stateUpdates a @ [objId] \<and>
     breadthFirst (ApplyU8Vec4ToChildrenCommand_undo objId propType oldProps a) = breadthFirst a \<and>
     (\<forall>x. oldProps0 x = None \<and> (x \<notin> set (breadthFirst a0 objId) \<or> objects a0 x = None) \<longrightarrow>
          objects (ApplyU8Vec4ToChildrenCommand_undo objId propType
                     (fst (ApplyU8Vec4ToChildrenCommand_execute objId propType oldProps0 a0)) a) x =
            objects a x) \<and>
     (\<forall>x. x \<notin> set (breadthFirst a0 objId) \<or> objects a0 x = None \<longrightarrow>
          fst (ApplyU8Vec4ToChildrenCommand_execute objId propType oldProps0 a0) x = oldProps0 x) \<and>
     dom oldProps0 \<subseteq> dom (fst (ApplyU8Vec4ToChildrenCommand_execute objId propType oldProps0 a0))"
proof -
  assume t: "getMutableObject a objId = Some obj"
  have u: "\<And>m x. objects (ApplyU8Vec4ToChildrenCommand_undo objId propType m a) x =
            (case m x of
               None \<Rightarrow> objects a x
             | Some v \<Rightarrow>
                 if x \<in> set (breadthFirst a objId)
                 then map_option (withSelectedProp propType v) (objects a x)
                 else objects a x)"
    using t by (simp add: ApplyU8Vec4ToChildrenCommand_undo_def updateObjectState_def
        undoChildren_loop_objects undoChildren_loop_frame)
  have fresh: "\<forall>x. oldProps0 x = None \<and> (x \<notin> set (breadthFirst a0 objId) \<or> objects a0 x = None) \<longrightarrow>
          objects (ApplyU8Vec4ToChildrenCommand_undo objId propType
                     (fst (ApplyU8Vec4ToChildrenCommand_execute objId propType oldProps0 a0)) a) x =
            objects a x"
  proof (intro allI impI)
    fix x assume x: "oldProps0 x = None \<and> (x \<notin> set (breadthFirst a0 objId) \<or> objects a0 x = None)"
    then have "fst (ApplyU8Vec4ToChildrenCommand_execute objId propType oldProps0 a0) x = None"
      using execute_snapshot_unvisited [of x a0 objId propType oldProps0] by simp
    then show "objects (ApplyU8Vec4ToChildrenCommand_undo objId propType
                     (fst (ApplyU8Vec4ToChildrenCommand_execute objId propType oldProps0 a0)) a) x =
            objects a x"
      by (simp add: u)
  qed
  have kept: "dom oldProps0 \<subseteq> dom (fst (ApplyU8Vec4ToChildrenCommand_execute objId propType oldProps0 a0))"
    using execute_snapshot_keeps_entries [where oldProps = oldProps0 and objId = objId
        and pt = propType and a = a0] by blast
  have frame: "stateUpdates (ApplyU8Vec4ToChildrenCommand_undo objId propType oldProps a) =
       stateUpdates a @ [objId]"
    "breadthFirst (ApplyU8Vec4ToChildrenCommand_undo objId propType oldProps a) = breadthFirst a"
    using t by (simp_all add: ApplyU8Vec4ToChildrenCommand_undo_def updateObjectState_def
        undoChildren_loop_frame)
  have same: "\<forall>x. x \<notin> set (breadthFirst a0 objId) \<or> objects a0 x = None \<longrightarrow>
          fst (ApplyU8Vec4ToChildrenCommand_execute objId propType oldProps0 a0) x = oldProps0 x"
    using execute_snapshot_unvisited [where a = a0 and objId = objId and pt = propType
        and oldProps = oldProps0] by blast
  show ?thesis
    using u [of oldProps] fresh same kept frame by blast
qed

text \<open>
  With a snapshot that holds \<open>2\<close> and \<open>4\<close>: \<open>2\<close> is restored, \<open>3\<close> (no entry) and \<open>4\<close>
  (not reached from the target) are left alone. With a new command executed while \<open>3\<close>
  is detached: the snapshot has an entry for \<open>2\<close> and none for \<open>3\<close>, and after \<open>3\<close> is
  attached the undo restores \<open>2\<close> and leaves \<open>3\<close> alone.
\<close>

theorem ApplyToChildren_undo_restores_witness:
  "getMutableObject familyStore 1 = Some \<lparr>fillColorStart = red, strokeColorStart = blue\<rparr> \<and>
   objects (ApplyU8Vec4ToChildrenCommand_undo 1 StrokeColor [2 \<mapsto> red, 4 \<mapsto> green] familyStore) 2
     = Some \<lparr>fillColorStart = green, strokeColorStart = red\<rparr> \<and>
   objects (ApplyU8Vec4ToChildrenCommand_undo 1 StrokeColor [2 \<mapsto> red, 4 \<mapsto> green] familyStore) 3
     = Some \<lparr>fillColorStart = yellow, strokeColorStart = green\<rparr> \<and>
   objects (ApplyU8Vec4ToChildrenCommand_undo 1 StrokeColor [2 \<mapsto> red, 4 \<mapsto> green] familyStore) 4
     = Some \<lparr>fillColorStart = blue, strokeColorStart = red\<rparr> \<and>
   stateUpdates (ApplyU8Vec4ToChildrenCommand_undo 1 StrokeColor [2 \<mapsto> red, 4 \<mapsto> green] familyStore)
     = [1] \<and>
   3 \<notin> set (breadthFirst (detach3 familyStore) 1) \<and>
   fst (ApplyU8Vec4ToChildrenCommand_execute 1 FillColor Map.empty (detach3 familyStore)) 2 = Some green \<and>
   fst (ApplyU8Vec4ToChildrenCommand_execute 1 FillColor Map.empty (detach3 familyStore)) 3 = None \<and>
   getMutableObject
     (attach3 (snd (ApplyU8Vec4ToChildrenCommand_execute 1 FillColor Map.empty (detach3 familyStore)))) 1
     = Some \<lparr>fillColorStart = red, strokeColorStart = blue\<rparr> \<and>
   objects
     (ApplyU8Vec4ToChildrenCommand_undo 1 FillColor
        (fst (ApplyU8Vec4ToChildrenCommand_execute 1 FillColor Map.empty (detach3 familyStore)))
        (attach3 (snd (ApplyU8Vec4ToChildrenCommand_execute 1 FillColor Map.empty (detach3 familyStore))))) 2
     = Some \<lparr>fillColorStart = green, strokeColorStart = yellow\<rparr> \<and>
   objects
     (ApplyU8Vec4ToChildrenCommand_undo 1 FillColor
        (fst (ApplyU8Vec4ToChildrenCommand_execute 1 FillColor Map.empty (detach3 familyStore)))
        (attach3 (snd (ApplyU8Vec4ToChildrenCommand_execute 1 FillColor Map.empty (detach3 familyStore))))) 3
     = Some \<lparr>fillColorStart = yellow, strokeColorStart = green\<rparr>"
proof -
  have t: "getMutableObject familyStore 1 = Some \<lparr>fillColorStart = red, strokeColorStart = blue\<rparr>"
    by (simp add: getMutableObject_def familyStore_def)
  have t2: "getMutableObject
     (attach3 (snd (ApplyU8Vec4ToChildrenCommand_execute 1 FillColor Map.empty (detach3 familyStore)))) 1
     = Some \<lparr>fillColorStart = red, strokeColorStart = blue\<rparr>"
    by (simp add: ApplyU8Vec4ToChildrenCommand_execute_def getMutableObject_def writeObject_def
          updateObjectState_def familyStore_def detach3_def attach3_def)
  show ?thesis
    using t t2
      ApplyToChildren_undo_restores [OF t, where propType = StrokeColor
        and oldProps = "[2 \<mapsto> red, 4 \<mapsto> green]" and ?oldProps0.0 = Map.empty and ?a0.0 = familyStore]
      ApplyToChildren_undo_restores [OF t2, where propType = FillColor
        and oldProps = "fst (ApplyU8Vec4ToChildrenCommand_execute 1 FillColor Map.empty (detach3 familyStore))"
        and ?oldProps0.0 = Map.empty and ?a0.0 = "detach3 familyStore"]
    by (simp add: ApplyU8Vec4ToChildrenCommand_execute_def ApplyU8Vec4ToChildrenCommand_undo_def
          getMutableObject_def writeObject_def updateObjectState_def familyStore_def detach3_def
          attach3_def withSelectedProp_def)
qed

text \<open>
  Claim C3 as stated fails where an entry of an earlier execution is still in the map.
  The command on target \<open>1\<close> is recorded while \<open>2\<close> and \<open>3\<close> are below it (entries
  \<open>2\<close>: green, \<open>3\<close>: yellow) and undone; \<open>3\<close> is detached; \<^verbatim>\<open>redo\<close> executes the
  command again and reaches \<open>2\<close> only, so the entry of \<open>3\<close> stays; \<open>3\<close> is attached
  again with a blue fill, after the most recent execution. \<^verbatim>\<open>undo\<close> then finds the old
  entry and turns the blue fill of \<open>3\<close> into yellow.
\<close>

theorem ApplyToChildren_undo_stale_entry_counterexample:
  "3 \<notin> set (breadthFirst (detach3 familyStore) 1) \<and>
   (case staleSnapshotRun of
      Inl e \<Rightarrow> False
    | Inr us4 \<Rightarrow>
        objects (am us4) 3 = Some \<lparr>fillColorStart = blue, strokeColorStart = green\<rparr> \<and>
        breadthFirst (am us4) 1 = [2, 3] \<and>
        (case undo us4 of
           Inl e \<Rightarrow> False
         | Inr us5 \<Rightarrow>
             objects (am us5) 3 = Some \<lparr>fillColorStart = yellow, strokeColorStart = green\<rparr> \<and>
             objects (am us5) 3 \<noteq> objects (am us4) 3))"
  by (simp add: staleSnapshotRun_def applyU8Vec4ToChildren_def detach3_def attach3Blue_def
        log_eval_defs log3_def familyStore_def
        ApplyU8Vec4ToChildrenCommand_execute_def ApplyU8Vec4ToChildrenCommand_undo_def
        getMutableObject_def writeObject_def updateObjectState_def
        blue_def yellow_def)

text \<open>
  Claim C2, evaluated. With the selector \<^verbatim>\<open>StrokeColor\<close> the command saves the stroke
  colour of child \<open>2\<close> (yellow) and then assigns the target's stroke colour (blue) to the
  child's fill colour: the child's stroke colour is still yellow afterwards and its fill
  colour, which was green and is not in the snapshot, is lost.
\<close>

theorem ApplyToChildren_execute_stroke_writes_fill:
  "(case ApplyU8Vec4ToChildrenCommand_execute 1 StrokeColor Map.empty familyStore of
      (oldProps', a') \<Rightarrow>
        oldProps' 2 = Some yellow \<and>
        objects a' 2 = Some \<lparr>fillColorStart = blue, strokeColorStart = yellow\<rparr> \<and>
        selectedProp StrokeColor \<lparr>fillColorStart = blue, strokeColorStart = yellow\<rparr> \<noteq> blue)"
  by (simp add: ApplyU8Vec4ToChildrenCommand_execute_def getMutableObject_def writeObject_def
        updateObjectState_def familyStore_def selectedProp_def yellow_def blue_def)

end
